theory Spec2Isabelle
  imports Main "HOL-Library.AList" "HOL-Library.FSet" "HOL-Library.Multiset"
begin

section \<open>The quiz server of server.js as a shallow embedding\<close>

text \<open>
  The embedding follows \<^verbatim>\<open>src/server.js\<close>: the question selection
  (\<^verbatim>\<open>shuffleArray\<close>, \<^verbatim>\<open>generateQuestionsFallback\<close>,
  \<^verbatim>\<open>generateQuestionsAI\<close>, \<^verbatim>\<open>selectQuestions\<close>) and the Socket.IO handlers
  (\<^verbatim>\<open>createRoom\<close>, \<^verbatim>\<open>joinRoom\<close>, \<^verbatim>\<open>startGame\<close>, \<^verbatim>\<open>playerDone\<close>,
  \<^verbatim>\<open>hostRevealAnswer\<close>, \<^verbatim>\<open>hostNext\<close>, \<^verbatim>\<open>disconnect\<close>).

  Modelling decisions, all of them visible in the definitions below:
  \<^item> JavaScript objects used as dictionaries (\<^verbatim>\<open>rooms\<close>, \<^verbatim>\<open>room.players\<close>,
    \<^verbatim>\<open>finishTimes\<close>, \<^verbatim>\<open>answers\<close>, payload objects) are association lists in insertion
    order, read with \<open>map_of\<close> and written with \<open>AList.update\<close> and \<open>AList.delete\<close>.
    Only own properties are modelled: keys that name a property of \<^verbatim>\<open>Object.prototype\<close>
    and integer-like keys (which JavaScript enumerates first) are outside the model.
  \<^item> \<^verbatim>\<open>room.done\<close>, a \<^verbatim>\<open>Set\<close> that is only tested, extended, shrunk and counted, is a
    finite set.
  \<^item> Everything a handler reads from outside the program is a field of the record
    \<open>env\<close>: the clock, the random draws, the reply of the Gemini module (whose source is
    not part of the repository), the file system test of \<^verbatim>\<open>getDiagramUrl\<close> and the
    environment variable of the join link.
  \<^item> A handler runs to completion before the next event is taken. The two
    \<^verbatim>\<open>async\<close> handlers suspend only inside the Gemini call, which is a value of
    \<open>env\<close> here; events that arrive while that call is pending are not modelled.
  \<^item> Reading a field of \<^verbatim>\<open>undefined\<close> raises \<^verbatim>\<open>TypeError\<close>; the handlers return
    \<open>Inl TypeError\<close> there.
  \<^item> Numbers are integers, and the fields of an event payload have the types of the
    external interface: strings, numbers and booleans; an absent string is empty.
\<close>

subsection \<open>JavaScript values of the payloads\<close>

datatype jsval =
    JUndef
  | JNull
  | JBool bool
  | JNum int
  | JStr string
  | JArr "jsval list"
  | JObj "(string \<times> jsval) list"

datatype error = TypeError

text \<open>\<open>mentions k v\<close>: some object inside the value \<open>v\<close> has a property named \<open>k\<close>.\<close>

fun mentions :: "string \<Rightarrow> jsval \<Rightarrow> bool" where
  "mentions k (JObj kvs) = list_ex (\<lambda>kv. fst kv = k \<or> mentions k (snd kv)) kvs"
| "mentions k (JArr vs) = list_ex (mentions k) vs"
| "mentions k _ = False"

subsection \<open>Strings\<close>

text \<open>\<^verbatim>\<open>String.prototype.includes\<close>, \<^verbatim>\<open>toLowerCase\<close> (on ASCII letters) and
  \<^verbatim>\<open>trim\<close> (on ASCII white space).\<close>

fun str_includes :: "string \<Rightarrow> string \<Rightarrow> bool" where
  "str_includes [] p = (p = [])"
| "str_includes (c # cs) p = (take (length p) (c # cs) = p \<or> str_includes cs p)"

definition toLowerCase :: "string \<Rightarrow> string" where
  "toLowerCase s =
     map (\<lambda>c. case map_of (zip ''ABCDEFGHIJKLMNOPQRSTUVWXYZ'' ''abcdefghijklmnopqrstuvwxyz'') c of
                 Some l \<Rightarrow> l | None \<Rightarrow> c) s"

definition is_space :: "char \<Rightarrow> bool" where
  "is_space c = (c \<in> set [CHR 0x09, CHR 0x0A, CHR 0x0B, CHR 0x0C, CHR 0x0D, CHR 0x20])"

definition trim :: "string \<Rightarrow> string" where
  "trim s = rev (dropWhile is_space (rev (dropWhile is_space s)))"

text \<open>Decimal rendering of the integers interpolated into template literals.\<close>

fun decimal :: "nat \<Rightarrow> string" where
  "decimal n = (if n < 10 then [''0123456789'' ! n] else decimal (n div 10) @ [''0123456789'' ! (n mod 10)])"

definition String_of_int :: "int \<Rightarrow> string" where
  "String_of_int i = (if i < 0 then ''-'' @ decimal (nat (- i)) else decimal (nat i))"

subsection \<open>Questions\<close>

text \<open>The fields of a question record that the handlers and the selection read
  (\<^verbatim>\<open>tags\<close> is never read). \<^verbatim>\<open>id\<close>, \<^verbatim>\<open>type\<close>, \<^verbatim>\<open>chapter\<close> and
  \<^verbatim>\<open>keywords\<close> are renamed \<open>qid\<close>, \<open>qtype\<close>, \<open>qchapter\<close> and \<open>qkeywords\<close>;
  an absent optional field is \<open>None\<close>.\<close>

record question =
  qid :: string
  grade :: int
  subject :: string
  qchapter :: string
  qtype :: string
  source :: string
  question :: string
  answer :: string
  qkeywords :: "string list"
  options :: "string list option"
  correctOption :: "int option"
  diagram :: "string option"
  image_search_query :: "string option"

definition QT_LONG :: string where "QT_LONG = ''long''"
definition QT_SHORT :: string where "QT_SHORT = ''short''"
definition QT_MCQ :: string where "QT_MCQ = ''mcq''"
definition QT_NUMERICAL :: string where "QT_NUMERICAL = ''numerical''"

subsection \<open>The environment of one handler call\<close>

text \<open>The texts a template renders (they interpolate random integers, fixed-point
  quotients and symbols outside ASCII) are drawn from the environment; which
  template is taken, its id prefix, its type and its correct option follow the source.\<close>

record qbody =
  b_question :: string
  b_answer :: string
  b_keywords :: "string list"
  b_options :: "string list"

record env =
  now :: int                               \<comment> \<open>\<^verbatim>\<open>Date.now()\<close> of the handler\<close>
  aiReply :: "question list option"        \<comment> \<open>what \<^verbatim>\<open>gemini.generateQuestions\<close> resolves to;
                                                \<open>None\<close>: disabled, rejected or timed out\<close>
  shuffleDraw :: "nat \<Rightarrow> nat"              \<comment> \<open>the draw of \<^verbatim>\<open>shuffleArray\<close> at loop index \<open>i\<close>\<close>
  idDraw :: "nat \<Rightarrow> string \<times> string"      \<comment> \<open>the two random parts of \<^verbatim>\<open>makeId\<close> at attempt \<open>k\<close>\<close>
  bodyDraw :: "nat \<Rightarrow> qbody"               \<comment> \<open>the rendered template texts at attempt \<open>k\<close>\<close>
  roomIdDraw :: "nat \<Rightarrow> nat"               \<comment> \<open>the draw of \<^verbatim>\<open>createRoomId\<close> for character \<open>i\<close>\<close>
  svgExists :: "string \<Rightarrow> bool"            \<comment> \<open>\<^verbatim>\<open>fs.existsSync\<close> on a diagram file\<close>
  publicUrl :: "string option"             \<comment> \<open>\<^verbatim>\<open>PUBLIC_URL || RENDER_EXTERNAL_URL\<close>\<close>

subsection \<open>shuffleArray\<close>

definition swap :: "'a list \<Rightarrow> nat \<Rightarrow> nat \<Rightarrow> 'a list" where
  "swap arr i j = arr[i := arr ! j, j := arr ! i]"

text \<open>The loop \<^verbatim>\<open>for (let i = arr.length - 1; i > 0; i--)\<close>, from index \<open>i\<close> down;
  \<^verbatim>\<open>Math.floor(Math.random() * (i + 1))\<close> is the draw reduced into \<open>0..i\<close>.\<close>

fun shuffle_from :: "(nat \<Rightarrow> nat) \<Rightarrow> nat \<Rightarrow> 'a list \<Rightarrow> 'a list" where
  "shuffle_from rnd 0 arr = arr"
| "shuffle_from rnd (Suc k) arr = shuffle_from rnd k (swap arr (Suc k) (rnd (Suc k) mod (Suc k + 1)))"

definition shuffleArray :: "(nat \<Rightarrow> nat) \<Rightarrow> 'a list \<Rightarrow> 'a list" where
  "shuffleArray rnd arr = shuffle_from rnd (length arr - 1) arr"

subsection \<open>The template generators\<close>

definition makeId :: "string \<Rightarrow> string \<times> string \<Rightarrow> string" where
  "makeId prefix d = prefix @ ''-'' @ fst d @ ''-'' @ snd d"

definition live_question ::
  "string \<times> string \<Rightarrow> qbody \<Rightarrow> string \<Rightarrow> int \<Rightarrow> string \<Rightarrow> string \<Rightarrow> string \<Rightarrow> int option \<Rightarrow> question" where
  "live_question d b suffix g s c t co =
     \<lparr> qid = makeId (''live-g'' @ String_of_int g @ suffix) d, grade = g, subject = s, qchapter = c,
       qtype = t, source = ''practice'', question = b_question b, answer = b_answer b,
       qkeywords = b_keywords b, options = (if co = None then None else Some (b_options b)),
       correctOption = co, diagram = None, image_search_query = None \<rparr>"

definition generateMathQuestion :: "string \<times> string \<Rightarrow> qbody \<Rightarrow> int \<Rightarrow> string \<Rightarrow> question" where
  "generateMathQuestion d b g c =
     (let ch = toLowerCase c in
      if str_includes ch ''quadratic'' then live_question d b ''-m-qe'' g ''Mathematics'' c QT_SHORT None
      else if str_includes ch ''coordinate'' then live_question d b ''-m-cg'' g ''Mathematics'' c QT_SHORT None
      else if str_includes ch ''arithmetic progression'' \<or> c = ''Arithmetic Progressions''
        then live_question d b ''-m-ap'' g ''Mathematics'' c QT_MCQ (Some 1)
      else if str_includes ch ''number system'' then live_question d b ''-m-ns'' g ''Mathematics'' c QT_SHORT None
      else if str_includes ch ''probability'' then live_question d b ''-m-prob'' g ''Mathematics'' c QT_MCQ (Some 3)
      else live_question d b ''-m'' g ''Mathematics'' c QT_SHORT None)"

definition generateScienceQuestion :: "string \<times> string \<Rightarrow> qbody \<Rightarrow> int \<Rightarrow> string \<Rightarrow> question" where
  "generateScienceQuestion d b g c =
     (let ch = toLowerCase c in
      if ch = ''motion'' then live_question d b ''-s-motion'' g ''Science'' c QT_NUMERICAL None
      else if ch = ''electricity'' then live_question d b ''-s-elec'' g ''Science'' c QT_NUMERICAL None
      else live_question d b ''-s'' g ''Science'' c QT_SHORT None)"

definition generateSocialScienceQuestion :: "string \<times> string \<Rightarrow> qbody \<Rightarrow> int \<Rightarrow> string \<Rightarrow> question" where
  "generateSocialScienceQuestion d b g c =
     (let ch = toLowerCase c in
      if str_includes ch ''nationalism'' \<or> str_includes ch ''revolution'' \<or> str_includes ch ''world''
        then live_question d b ''-ss-hist'' g ''Social Science'' c QT_SHORT None
      else if str_includes ch ''resource'' \<or> str_includes ch ''agriculture'' \<or> str_includes ch ''industry''
              \<or> str_includes ch ''india''
        then live_question d b ''-ss-geo'' g ''Social Science'' c QT_SHORT None
      else if str_includes ch ''democracy'' \<or> str_includes ch ''power'' \<or> str_includes ch ''federalism''
              \<or> str_includes ch ''party''
        then live_question d b ''-ss-civ'' g ''Social Science'' c QT_MCQ (Some 1)
      else if str_includes ch ''development'' \<or> str_includes ch ''sector'' \<or> str_includes ch ''economy''
              \<or> str_includes ch ''credit''
        then live_question d b ''-ss-eco'' g ''Social Science'' c QT_SHORT None
      else live_question d b ''-ss'' g ''Social Science'' c QT_SHORT None)"

text \<open>The question of one pass of the loop of \<^verbatim>\<open>generateQuestionsFallback\<close>.\<close>

definition fallback_candidate :: "env \<Rightarrow> nat \<Rightarrow> int \<Rightarrow> string \<Rightarrow> string \<Rightarrow> question" where
  "fallback_candidate e k g s c =
     (if s = ''Mathematics'' then generateMathQuestion (idDraw e k) (bodyDraw e k) g c
      else if s = ''Science'' then generateScienceQuestion (idDraw e k) (bodyDraw e k) g c
      else if s = ''Social Science'' then generateSocialScienceQuestion (idDraw e k) (bodyDraw e k) g c
      else \<lparr> qid = makeId (''live-g'' @ String_of_int g) (idDraw e k), grade = g, subject = s,
             qchapter = (if c \<noteq> [] then c else ''General''), qtype = QT_SHORT, source = ''practice'',
             question = ''Write a short answer practice response for: '' @ (if c \<noteq> [] then c else s) @ ''.'',
             answer = ''This is an open-ended practice prompt.'', qkeywords = [],
             options = None, correctOption = None, diagram = None, image_search_query = None \<rparr>)"

subsection \<open>generateQuestionsFallback\<close>

text \<open>The \<^verbatim>\<open>while\<close> loop with its three variables \<open>attempts\<close>, \<open>out\<close> and the
  caller's \<open>excludeIds\<close>, which it extends; both are returned.\<close>

function fallback_loop ::
  "env \<Rightarrow> int \<Rightarrow> string \<Rightarrow> string \<Rightarrow> nat \<Rightarrow> nat \<Rightarrow> question list \<Rightarrow> string set
     \<Rightarrow> question list \<times> string set" where
  "fallback_loop e g s c cnt attempts out excludeIds =
     (if length out < cnt \<and> attempts < cnt * 12 then
        (let attempts' = attempts + 1;
             q = fallback_candidate e attempts' g s c
         in if qid q \<in> excludeIds then fallback_loop e g s c cnt attempts' out excludeIds
            else fallback_loop e g s c cnt attempts' (out @ [q]) (insert (qid q) excludeIds))
      else (out, excludeIds))"
  by pat_completeness auto
termination
  by (relation "measure (\<lambda>(e, g, s, c, cnt, attempts, out, excludeIds). cnt * 12 - attempts)") auto

definition generateQuestionsFallback ::
  "env \<Rightarrow> int \<Rightarrow> string \<Rightarrow> string \<Rightarrow> nat \<Rightarrow> string set \<Rightarrow> question list \<times> string set" where
  "generateQuestionsFallback e g s c cnt excludeIds = fallback_loop e g s c cnt 0 [] excludeIds"

subsection \<open>generateQuestionsAI\<close>

text \<open>The \<^verbatim>\<open>for\<close> loop over the reply: a question with a falsy id or an id already
  excluded is skipped, every other one is kept and its id excluded.\<close>

fun ai_loop :: "question list \<Rightarrow> question list \<Rightarrow> string set \<Rightarrow> question list \<times> string set" where
  "ai_loop [] out excludeIds = (out, excludeIds)"
| "ai_loop (q # generated) out excludeIds =
     (if qid q = [] \<or> qid q \<in> excludeIds then ai_loop generated out excludeIds
      else ai_loop generated (out @ [q]) (insert (qid q) excludeIds))"

definition generateQuestionsAI :: "env \<Rightarrow> string set \<Rightarrow> question list \<times> string set" where
  "generateQuestionsAI e excludeIds =
     (case aiReply e of None \<Rightarrow> ([], excludeIds) | Some generated \<Rightarrow> ai_loop generated [] excludeIds)"

subsection \<open>selectQuestions\<close>

text \<open>\<open>grade0\<close> is the number the client sent, \<open>None\<close> when absent; \<open>subject0\<close>,
  \<open>chapter0\<close> and \<open>questionType\<close> are strings, empty when absent; \<open>rounds\<close> is a number.
  \<open>QUESTION_BANK\<close> is the first argument. The three numbered steps of the source are
  three definitions; each takes and returns the pair of \<open>selected\<close> and \<open>excludeIds\<close>.\<close>

definition truthy_grade :: "int option \<Rightarrow> bool" where
  "truthy_grade grade0 = (grade0 \<noteq> None \<and> grade0 \<noteq> Some 0)"

text \<open>Step 1, \<^verbatim>\<open>if (useAi)\<close>; \<open>excludeIds\<close> starts as \<^verbatim>\<open>new Set()\<close>.\<close>

definition select_ai :: "env \<Rightarrow> bool \<Rightarrow> question list \<times> string set" where
  "select_ai e useAi = (if useAi then generateQuestionsAI e {} else ([], {}))"

text \<open>Step 2, the static question bank: the four filters on the non-empty fields.\<close>

definition bank_filter :: "question list \<Rightarrow> int option \<Rightarrow> string \<Rightarrow> string \<Rightarrow> string \<Rightarrow> question list" where
  "bank_filter QUESTION_BANK grade0 subject0 chapter0 questionType =
     (let f1 = (if truthy_grade grade0 then filter (\<lambda>q. grade q = the grade0) QUESTION_BANK
                else QUESTION_BANK);
          f2 = (if subject0 \<noteq> [] then filter (\<lambda>q. subject q = subject0) f1 else f1);
          f3 = (if chapter0 \<noteq> [] then filter (\<lambda>q. qchapter q = chapter0) f2 else f2)
      in if questionType \<noteq> [] then filter (\<lambda>q. qtype q = questionType) f3 else f3)"

definition select_bank ::
  "question list \<Rightarrow> env \<Rightarrow> int option \<Rightarrow> string \<Rightarrow> string \<Rightarrow> string \<Rightarrow> nat
     \<Rightarrow> question list \<times> string set \<Rightarrow> question list \<times> string set" where
  "select_bank QUESTION_BANK e grade0 subject0 chapter0 questionType requested st =
     (let selected = fst st; excludeIds = snd st in
      if length selected < requested then
        (let filtered = filter (\<lambda>q. qid q \<notin> excludeIds)
                          (bank_filter QUESTION_BANK grade0 subject0 chapter0 questionType);
             shuffled = shuffleArray (shuffleDraw e) filtered;
             needed = requested - length selected;
             fromBank = take needed shuffled
         in (selected @ fromBank, excludeIds \<union> qid ` set fromBank))
      else (selected, excludeIds))"

text \<open>Step 3, the fallback generator, and the result (its \<open>questions\<close> field; the
  other two fields are its length).\<close>

definition selectQuestions ::
  "question list \<Rightarrow> env \<Rightarrow> int option \<Rightarrow> string \<Rightarrow> string \<Rightarrow> int \<Rightarrow> string \<Rightarrow> bool \<Rightarrow> question list" where
  "selectQuestions QUESTION_BANK e grade0 subject0 chapter0 rounds questionType useAi =
     (let requested = nat (max 1 (if rounds = 0 then 5 else rounds));
          g = (if truthy_grade grade0 then the grade0 else 10);
          s = (if subject0 \<noteq> [] then subject0 else ''Mathematics'');
          c = chapter0;
          st1 = select_ai e useAi;
          st2 = select_bank QUESTION_BANK e grade0 subject0 chapter0 questionType requested st1;
          selected = fst st2
      in if length selected < requested then
           selected @ fst (generateQuestionsFallback e g s c (requested - length selected) (snd st2))
         else selected)"

subsection \<open>Rooms\<close>

text \<open>\<^verbatim>\<open>room.id\<close> and \<^verbatim>\<open>room.done\<close> are renamed \<open>rid\<close> and \<open>doneSet\<close>.
  \<^verbatim>\<open>totalRounds\<close> holds a number or the string \<^verbatim>\<open>'Unlimited'\<close>.\<close>

record player =
  pid :: string
  name :: string

datatype rstate = waiting | in_question | showing_answer | finished

datatype total = Fixed int | Unlimited

record filter_params =
  fgrade :: "int option"
  fsubject :: string
  fchapter :: string
  fuseAi :: bool

record room =
  rid :: string
  hostId :: string
  hostName :: string
  players :: "(string \<times> player) list"
  questions :: "question list"
  questionIndex :: nat
  totalRounds :: total
  isUnlimited :: bool
  filterParams :: filter_params
  doneSet :: "string fset"
  finishTimes :: "(string \<times> int) list"
  answers :: "(string \<times> jsval) list"
  state :: rstate
  startTime :: "int option"

type_synonym rooms = "(string \<times> room) list"

text \<open>An emitted message: \<open>Reply\<close> is \<^verbatim>\<open>socket.emit\<close> (to the requesting connection
  only), \<open>To x\<close> is \<^verbatim>\<open>io.to(x).emit\<close> (to every connection in the channel \<open>x\<close>: a room
  id, or the id of one connection).\<close>

datatype target = Reply | To string

type_synonym emit = "target \<times> string \<times> jsval"

subsection \<open>Payloads\<close>

definition trusted :: "string \<Rightarrow> jsval \<Rightarrow> string \<Rightarrow> jsval" where
  "trusted n url icon = JObj [(''name'', JStr n), (''url'', url), (''icon'', JStr icon)]"

text \<open>The icons are the UTF-8 bytes of the source's emoji.\<close>

definition TRUSTED_SOURCES :: "(string \<times> jsval) list" where
  "TRUSTED_SOURCES =
     [(''practice'', trusted ''Practice'' (JNull) [CHR 0xF0, CHR 0x9F, CHR 0xA7, CHR 0xA9]),
      (''ai'', trusted ''AI (Gemini)'' (JStr ''https://ai.google.dev'') [CHR 0xF0, CHR 0x9F, CHR 0xA4, CHR 0x96]),
      (''ncert'', trusted ''NCERT'' (JStr ''https://ncert.nic.in'') [CHR 0xF0, CHR 0x9F, CHR 0x93, CHR 0x9A]),
      (''vedantu'', trusted ''Vedantu'' (JStr ''https://vedantu.com'') [CHR 0xF0, CHR 0x9F, CHR 0x8E, CHR 0x93]),
      (''byjus'', trusted ''Byjus'' (JStr ''https://byjus.com'') [CHR 0xF0, CHR 0x9F, CHR 0x93, CHR 0x96]),
      (''pw'', trusted ''Physics Wallah'' (JStr ''https://physicswallah.live'') [CHR 0xE2, CHR 0x9A, CHR 0xA1]),
      (''exemplar'', trusted ''NCERT Exemplar'' (JStr ''https://ncert.nic.in/exemplar.php'') [CHR 0xE2, CHR 0xAD, CHR 0x90]),
      (''rdSharma'', trusted ''RD Sharma'' (JStr ''#'') [CHR 0xF0, CHR 0x9F, CHR 0x93, CHR 0x90]),
      (''rsAggarwal'', trusted ''RS Aggarwal'' (JStr ''#'') [CHR 0xF0, CHR 0x9F, CHR 0x93, CHR 0x8A]),
      (''pyq'', trusted ''CBSE PYQ'' (JStr ''https://cbse.gov.in'') [CHR 0xF0, CHR 0x9F, CHR 0x93, CHR 0x9D]),
      (''hots'', trusted ''HOTS'' (JStr ''#'') [CHR 0xF0, CHR 0x9F, CHR 0xA7, CHR 0xA0])]"

text \<open>\<^verbatim>\<open>TRUSTED_SOURCES[q.source] || { name: q.source }\<close>\<close>

definition source_json :: "question \<Rightarrow> jsval" where
  "source_json q =
     (case map_of TRUSTED_SOURCES (source q) of Some v \<Rightarrow> v | None \<Rightarrow> JObj [(''name'', JStr (source q))])"

definition safe_char :: "char \<Rightarrow> bool" where
  "safe_char c =
     (c \<in> set ''abcdefghijklmnopqrstuvwxyzABCDEFGHIJKLMNOPQRSTUVWXYZ0123456789_-'')"

definition getDiagramUrl :: "env \<Rightarrow> string option \<Rightarrow> jsval" where
  "getDiagramUrl e diagramId =
     (case diagramId of
        None \<Rightarrow> JNull
      | Some d \<Rightarrow>
          (let safe = filter safe_char d in
           if safe = [] then JNull
           else if svgExists e safe then JStr (''/diagrams/'' @ safe @ ''.svg'')
           else JNull))"

definition options_json :: "question \<Rightarrow> jsval" where
  "options_json q = (case options q of None \<Rightarrow> JUndef | Some os \<Rightarrow> JArr (map JStr os))"

definition correctOption_json :: "question \<Rightarrow> jsval" where
  "correctOption_json q = (case correctOption q of None \<Rightarrow> JUndef | Some n \<Rightarrow> JNum n)"

text \<open>\<^verbatim>\<open>q.image_search_query || null\<close>\<close>

definition imageSearchQuery_json :: "question \<Rightarrow> jsval" where
  "imageSearchQuery_json q =
     (case image_search_query q of None \<Rightarrow> JNull | Some x \<Rightarrow> if x = [] then JNull else JStr x)"

definition total_json :: "total \<Rightarrow> jsval" where
  "total_json t = (case t of Fixed n \<Rightarrow> JNum n | Unlimited \<Rightarrow> JStr ''Unlimited'')"

definition startTime_json :: "room \<Rightarrow> jsval" where
  "startTime_json r = (case startTime r of None \<Rightarrow> JNull | Some t \<Rightarrow> JNum t)"

definition state_json :: "rstate \<Rightarrow> jsval" where
  "state_json st =
     JStr (case st of waiting \<Rightarrow> ''waiting'' | in_question \<Rightarrow> ''in_question''
           | showing_answer \<Rightarrow> ''showing_answer'' | finished \<Rightarrow> ''finished'')"

text \<open>\<^verbatim>\<open>Object.values(room.players)\<close>\<close>

definition players_json :: "room \<Rightarrow> jsval" where
  "players_json r =
     JArr (map (\<lambda>kv. JObj [(''id'', JStr (pid (snd kv))), (''name'', JStr (name (snd kv)))]) (players r))"

text \<open>The payload of \<^verbatim>\<open>questionStarted\<close>, in \<^verbatim>\<open>startGame\<close> and \<^verbatim>\<open>hostNext\<close>.\<close>

definition questionStarted_payload :: "env \<Rightarrow> room \<Rightarrow> question \<Rightarrow> jsval" where
  "questionStarted_payload e r q =
     JObj [(''questionIndex'', JNum (int (questionIndex r) + 1)),
           (''totalRounds'', total_json (totalRounds r)),
           (''question'', JStr (question q)),
           (''type'', JStr (qtype q)),
           (''options'', options_json q),
           (''diagramUrl'', getDiagramUrl e (diagram q)),
           (''imageSearchQuery'', imageSearchQuery_json q),
           (''source'', source_json q),
           (''startTime'', startTime_json r)]"

text \<open>The payload of \<^verbatim>\<open>showAnswer\<close>, in \<^verbatim>\<open>playerDone\<close> and \<^verbatim>\<open>hostRevealAnswer\<close>,
  with the two objects \<open>times\<close> and \<open>playerAnswers\<close>.\<close>

definition showAnswer_payload :: "env \<Rightarrow> room \<Rightarrow> question \<Rightarrow> jsval \<Rightarrow> jsval \<Rightarrow> jsval" where
  "showAnswer_payload e r q times0 playerAnswers =
     JObj [(''questionIndex'', JNum (int (questionIndex r) + 1)),
           (''totalRounds'', total_json (totalRounds r)),
           (''question'', JStr (question q)),
           (''type'', JStr (qtype q)),
           (''options'', options_json q),
           (''correctOption'', correctOption_json q),
           (''answer'', JStr (answer q)),
           (''keywords'', JArr (map JStr (qkeywords q))),
           (''diagramUrl'', getDiagramUrl e (diagram q)),
           (''imageSearchQuery'', imageSearchQuery_json q),
           (''source'', source_json q),
           (''finishTimes'', times0),
           (''playerAnswers'', playerAnswers)]"

text \<open>\<^verbatim>\<open>times[player.name] = room.finishTimes[id] || null\<close>, over the players in order.\<close>

definition times_of :: "room \<Rightarrow> (string \<times> jsval) list" where
  "times_of r =
     foldl (\<lambda>times0 kv.
              AList.update (name (snd kv))
                (case map_of (finishTimes r) (fst kv) of
                   None \<Rightarrow> JNull
                 | Some t \<Rightarrow> if t = 0 then JNull else JNum t) times0)
           [] (players r)"

text \<open>\<^verbatim>\<open>room.answers[id] === q.correctOption\<close>\<close>

definition strict_eq_option :: "jsval \<Rightarrow> int option \<Rightarrow> bool" where
  "strict_eq_option a co = (case co of None \<Rightarrow> a = JUndef | Some n \<Rightarrow> a = JNum n)"

definition playerAnswers_of :: "room \<Rightarrow> question \<Rightarrow> (string \<times> jsval) list" where
  "playerAnswers_of r q =
     foldl (\<lambda>pa kv.
              case map_of (answers r) (fst kv) of
                None \<Rightarrow> pa
              | Some a \<Rightarrow>
                  if a = JUndef then pa
                  else AList.update (name (snd kv))
                         (JObj [(''answer'', a),
                                (''correct'', if qtype q = QT_MCQ then JBool (strict_eq_option a (correctOption q))
                                              else JNull)]) pa)
           [] (players r)"

text \<open>\<^verbatim>\<open>room.questions[room.questionIndex]\<close>: \<open>None\<close> is \<^verbatim>\<open>undefined\<close>.\<close>

definition current_question :: "room \<Rightarrow> question option" where
  "current_question r =
     (if questionIndex r < length (questions r) then Some (questions r ! questionIndex r) else None)"

definition getPublicRoomState :: "env \<Rightarrow> room \<Rightarrow> error + jsval" where
  "getPublicRoomState e r =
     (if state r = in_question \<or> state r = showing_answer then
        (case current_question r of
           None \<Rightarrow> Inl TypeError
         | Some q \<Rightarrow>
             Inr (JObj [(''questionIndex'', JNum (int (questionIndex r))),
                        (''totalRounds'', total_json (totalRounds r)),
                        (''state'', state_json (state r)),
                        (''players'', players_json r),
                        (''currentQuestion'',
                           JObj [(''question'', JStr (question q)),
                                 (''type'', JStr (qtype q)),
                                 (''options'', options_json q),
                                 (''diagramUrl'', getDiagramUrl e (diagram q)),
                                 (''imageSearchQuery'', imageSearchQuery_json q),
                                 (''source'', source_json q)])]))
      else Inr (JObj [(''questionIndex'', JNum (int (questionIndex r))),
                      (''totalRounds'', total_json (totalRounds r)),
                      (''state'', state_json (state r)),
                      (''players'', players_json r),
                      (''currentQuestion'', JNull)]))"

subsection \<open>The handlers\<close>

text \<open>A handler takes the id of the requesting connection (\<^verbatim>\<open>socket.id\<close>), the
  payload and the registry \<^verbatim>\<open>rooms\<close>, and returns the registry and the messages it
  emitted, in order, or the exception it raised.\<close>

definition createRoomId :: "env \<Rightarrow> string" where
  "createRoomId e =
     map (\<lambda>i. ''ABCDEFGHJKMNPQRSTUVWXYZ23456789'' ! (roomIdDraw e i mod 31)) [0, 1, 2, 3, 4]"

text \<open>The payload of \<^verbatim>\<open>createRoom\<close>; \<open>c_totalRounds\<close> is \<^verbatim>\<open>parseInt(totalRounds, 10)\<close>,
  \<open>None\<close> for \<^verbatim>\<open>NaN\<close>.\<close>

record create_req =
  c_hostName :: string
  c_totalRounds :: "int option"
  c_grade :: "int option"
  c_subject :: string
  c_chapter :: string
  c_useAi :: bool
  c_playAsHost :: bool

definition host_name :: "create_req \<Rightarrow> string" where
  "host_name req = (if trim (c_hostName req) \<noteq> [] then trim (c_hostName req) else ''Host'')"

text \<open>The room object that \<^verbatim>\<open>createRoom\<close> stores, the host added when
  \<^verbatim>\<open>playAsHost\<close> is set.\<close>

definition new_room :: "string \<Rightarrow> string \<Rightarrow> create_req \<Rightarrow> question list \<Rightarrow> bool \<Rightarrow> room" where
  "new_room roomId sid req qs unlimited =
     \<lparr> rid = roomId, hostId = sid, hostName = host_name req,
       players = (if c_playAsHost req
                  then [(sid, \<lparr> pid = sid, name = host_name req @ '' (Host)'' \<rparr>)] else []),
       questions = qs, questionIndex = 0,
       totalRounds = (if unlimited then Unlimited else Fixed (int (length qs))),
       isUnlimited = unlimited,
       filterParams = \<lparr> fgrade = c_grade req, fsubject = c_subject req,
                        fchapter = c_chapter req, fuseAi = c_useAi req \<rparr>,
       doneSet = {||}, finishTimes = [], answers = [], state = waiting, startTime = None \<rparr>"

text \<open>\<^verbatim>\<open>parseInt(totalRounds, 10) || 5\<close>\<close>

definition parsed_rounds :: "create_req \<Rightarrow> int" where
  "parsed_rounds req = (case c_totalRounds req of None \<Rightarrow> 5 | Some n \<Rightarrow> if n = 0 then 5 else n)"

text \<open>The call of \<^verbatim>\<open>selectQuestions\<close> in \<^verbatim>\<open>createRoom\<close>: five questions for an
  unlimited room (\<^verbatim>\<open>-1\<close>), the requested number otherwise.\<close>

definition initial_questions :: "question list \<Rightarrow> env \<Rightarrow> create_req \<Rightarrow> question list" where
  "initial_questions QUESTION_BANK e req =
     selectQuestions QUESTION_BANK e (c_grade req) (c_subject req) (c_chapter req)
       (if parsed_rounds req = - 1 then 5 else parsed_rounds req) [] (c_useAi req)"

definition createRoom ::
  "question list \<Rightarrow> env \<Rightarrow> string \<Rightarrow> create_req \<Rightarrow> rooms \<Rightarrow> error + rooms \<times> emit list" where
  "createRoom QUESTION_BANK e sid req rooms =
     (let roomId = createRoomId e;
          unlimited = (parsed_rounds req = - 1);
          qs = initial_questions QUESTION_BANK e req
      in if qs = [] then
           Inr (rooms, [(Reply, ''errorMessage'', JStr ''No questions found for selected filters.'')])
         else
           Inr (AList.update roomId (new_room roomId sid req qs unlimited) rooms,
                [(Reply, ''roomCreated'',
                  JObj [(''roomId'', JStr roomId),
                        (''joinUrl'', case publicUrl e of
                                        None \<Rightarrow> JNull
                                      | Some b \<Rightarrow> if b = [] then JNull else JStr (b @ ''/join/'' @ roomId)),
                        (''totalRounds'', JNum (int (length qs))),
                        (''hostName'', JStr (host_name req))])]))"

definition add_player :: "string \<Rightarrow> string \<Rightarrow> room \<Rightarrow> room" where
  "add_player sid nm r =
     r\<lparr> players := AList.update sid
                       \<lparr> pid = sid, name = (if trim nm \<noteq> [] then trim nm else ''Player'') \<rparr>
                       (players r) \<rparr>"

definition joinRoom :: "env \<Rightarrow> string \<Rightarrow> string \<Rightarrow> string \<Rightarrow> rooms \<Rightarrow> error + rooms \<times> emit list" where
  "joinRoom e sid roomId nm rooms =
     (case map_of rooms roomId of
        None \<Rightarrow> Inr (rooms, [(Reply, ''errorMessage'', JStr ''Room not found.'')])
      | Some r \<Rightarrow>
          if hostId r = sid then Inr (rooms, [(Reply, ''errorMessage'', JStr ''You are the host.'')])
          else
            (let r' = add_player sid nm r
             in case getPublicRoomState e r' of
                  Inl err \<Rightarrow> Inl err
                | Inr st \<Rightarrow>
                    Inr (AList.update roomId r' rooms,
                         [(To (hostId r'), ''playerListUpdate'', JObj [(''players'', players_json r')]),
                          (Reply, ''joinedRoom'',
                           JObj [(''roomId'', JStr roomId),
                                 (''playerName'', case map_of (players r') sid of
                                                    None \<Rightarrow> JUndef | Some p \<Rightarrow> JStr (name p)),
                                 (''state'', st)])])))"

text \<open>The common tail of \<^verbatim>\<open>startGame\<close> and \<^verbatim>\<open>hostNext\<close>: reset the round and
  broadcast the question under the cursor.\<close>

definition reset_round :: "env \<Rightarrow> room \<Rightarrow> room" where
  "reset_round e r =
     r\<lparr> state := in_question, doneSet := {||}, finishTimes := [], answers := [],
        startTime := Some (now e) \<rparr>"

definition start_round :: "env \<Rightarrow> string \<Rightarrow> room \<Rightarrow> rooms \<Rightarrow> error + rooms \<times> emit list" where
  "start_round e roomId r rooms =
     (let r' = reset_round e r
      in case current_question r' of
           None \<Rightarrow> Inl TypeError
         | Some q \<Rightarrow>
             Inr (AList.update roomId r' rooms,
                  [(To roomId, ''questionStarted'', questionStarted_payload e r' q)]))"

definition startGame :: "env \<Rightarrow> string \<Rightarrow> string \<Rightarrow> rooms \<Rightarrow> error + rooms \<times> emit list" where
  "startGame e sid roomId rooms =
     (case map_of rooms roomId of
        None \<Rightarrow> Inr (rooms, [])
      | Some r \<Rightarrow>
          if hostId r \<noteq> sid then Inr (rooms, [])
          else start_round e roomId (r\<lparr> questionIndex := 0 \<rparr>) rooms)"

text \<open>The three assignments of \<^verbatim>\<open>playerDone\<close> that record the signal.\<close>

definition record_done :: "env \<Rightarrow> string \<Rightarrow> jsval \<Rightarrow> room \<Rightarrow> room" where
  "record_done e sid ans r =
     r\<lparr> doneSet := finsert sid (doneSet r),
        finishTimes := AList.update sid (now e - (case startTime r of None \<Rightarrow> 0 | Some t \<Rightarrow> t))
                         (finishTimes r),
        answers := (if ans \<noteq> JUndef then AList.update sid ans (answers r) else answers r) \<rparr>"

definition playerDone ::
  "env \<Rightarrow> string \<Rightarrow> string \<Rightarrow> jsval \<Rightarrow> rooms \<Rightarrow> error + rooms \<times> emit list" where
  "playerDone e sid roomId ans rooms =
     (case map_of rooms roomId of
        None \<Rightarrow> Inr (rooms, [])
      | Some r \<Rightarrow>
          if state r \<noteq> in_question \<or> map_of (players r) sid = None then Inr (rooms, [])
          else if sid |\<in>| doneSet r then Inr (rooms, [])
          else
            (let r1 = record_done e sid ans r
             in if fcard (doneSet r1) \<ge> length (players r1) then
                  (case current_question r1 of
                     None \<Rightarrow> Inl TypeError
                   | Some q \<Rightarrow>
                       (let r2 = r1\<lparr> state := showing_answer \<rparr>
                        in Inr (AList.update roomId r2 rooms,
                                [(To roomId, ''showAnswer'',
                                  showAnswer_payload e r2 q (JObj (times_of r2))
                                    (JObj (playerAnswers_of r2 q)))])))
                else Inr (AList.update roomId r1 rooms, [])))"

definition hostRevealAnswer :: "env \<Rightarrow> string \<Rightarrow> string \<Rightarrow> rooms \<Rightarrow> error + rooms \<times> emit list" where
  "hostRevealAnswer e sid roomId rooms =
     (case map_of rooms roomId of
        None \<Rightarrow> Inr (rooms, [])
      | Some r \<Rightarrow>
          if hostId r \<noteq> sid \<or> state r \<noteq> in_question then Inr (rooms, [])
          else if length (players r) > 0 then Inr (rooms, [])
          else
            (case current_question r of
               None \<Rightarrow> Inl TypeError
             | Some q \<Rightarrow>
                 (let r' = r\<lparr> state := showing_answer \<rparr>
                  in Inr (AList.update roomId r' rooms,
                          [(To roomId, ''showAnswer'',
                            showAnswer_payload e r' q (JObj []) (JObj []))]))))"

text \<open>\<^verbatim>\<open>room.questionIndex >= room.totalRounds\<close>; a number against the string
  \<^verbatim>\<open>'Unlimited'\<close> compares false.\<close>

definition reached :: "nat \<Rightarrow> total \<Rightarrow> bool" where
  "reached i t = (case t of Fixed n \<Rightarrow> int i \<ge> n | Unlimited \<Rightarrow> False)"

definition game_over :: "string \<Rightarrow> room \<Rightarrow> jsval \<Rightarrow> rooms \<Rightarrow> error + rooms \<times> emit list" where
  "game_over roomId r t rooms =
     Inr (AList.update roomId (r\<lparr> state := finished \<rparr>) rooms,
          [(To roomId, ''gameOver'', JObj [(''totalRounds'', t)])])"

text \<open>The replenishment of \<^verbatim>\<open>hostNext\<close>: five more questions are selected with the
  stored \<^verbatim>\<open>filterParams\<close>, and those whose id is not yet in the queue are pushed.\<close>

definition replenish :: "question list \<Rightarrow> env \<Rightarrow> room \<Rightarrow> room" where
  "replenish QUESTION_BANK e r =
     (let newQuestions =
            selectQuestions QUESTION_BANK e (fgrade (filterParams r)) (fsubject (filterParams r))
              (fchapter (filterParams r)) 5 [] (fuseAi (filterParams r));
          existingIds = qid ` set (questions r)
      in r\<lparr> questions := questions r @ filter (\<lambda>nq. qid nq \<notin> existingIds) newQuestions \<rparr>)"

definition hostNext ::
  "question list \<Rightarrow> env \<Rightarrow> string \<Rightarrow> string \<Rightarrow> rooms \<Rightarrow> error + rooms \<times> emit list" where
  "hostNext QUESTION_BANK e sid roomId rooms =
     (case map_of rooms roomId of
        None \<Rightarrow> Inr (rooms, [])
      | Some r \<Rightarrow>
          if hostId r \<noteq> sid \<or> state r \<noteq> showing_answer then Inr (rooms, [])
          else
            (let r1 = r\<lparr> questionIndex := questionIndex r + 1 \<rparr> in
             if \<not> isUnlimited r1 \<and> reached (questionIndex r1) (totalRounds r1) then
               game_over roomId r1 (total_json (totalRounds r1)) rooms
             else if isUnlimited r1 \<and> int (length (questions r1)) - int (questionIndex r1) \<le> 2 then
               (let r2 = replenish QUESTION_BANK e r1
                in if questionIndex r2 \<ge> length (questions r2) then
                     game_over roomId r2 (JNum (int (questionIndex r2))) rooms
                   else start_round e roomId r2 rooms)
             else start_round e roomId r1 rooms))"

text \<open>The loop of \<^verbatim>\<open>disconnect\<close> over \<^verbatim>\<open>Object.entries(rooms)\<close>.\<close>

definition remove_player :: "string \<Rightarrow> room \<Rightarrow> room" where
  "remove_player sid r =
     r\<lparr> players := AList.delete sid (players r),
        doneSet := doneSet r |-| {|sid|},
        finishTimes := AList.delete sid (finishTimes r),
        answers := AList.delete sid (answers r) \<rparr>"

fun disconnect :: "string \<Rightarrow> rooms \<Rightarrow> rooms \<times> emit list" where
  "disconnect sid [] = ([], [])"
| "disconnect sid ((roomId, r) # rest) =
     (let (rest', out) = disconnect sid rest in
      if hostId r = sid then (rest', (To roomId, ''errorMessage'', JStr ''Host disconnected.'') # out)
      else if map_of (players r) sid \<noteq> None then
        (let r' = remove_player sid r
         in ((roomId, r') # rest',
             (if hostId r' \<noteq> [] then [(To (hostId r'), ''playerListUpdate'', JObj [(''players'', players_json r')])]
              else []) @ out))
      else ((roomId, r) # rest', out))"

subsection \<open>Events and runs\<close>

datatype event =
    CreateRoom create_req
  | JoinRoom string string
  | StartGame string
  | PlayerDone string jsval
  | HostRevealAnswer string
  | HostNext string
  | Disconnect

definition handle ::
  "question list \<Rightarrow> env \<Rightarrow> string \<Rightarrow> event \<Rightarrow> rooms \<Rightarrow> error + rooms \<times> emit list" where
  "handle QUESTION_BANK e sid ev rooms =
     (case ev of
        CreateRoom req \<Rightarrow> createRoom QUESTION_BANK e sid req rooms
      | JoinRoom roomId nm \<Rightarrow> joinRoom e sid roomId nm rooms
      | StartGame roomId \<Rightarrow> startGame e sid roomId rooms
      | PlayerDone roomId ans \<Rightarrow> playerDone e sid roomId ans rooms
      | HostRevealAnswer roomId \<Rightarrow> hostRevealAnswer e sid roomId rooms
      | HostNext roomId \<Rightarrow> hostNext QUESTION_BANK e sid roomId rooms
      | Disconnect \<Rightarrow> Inr (disconnect sid rooms))"

text \<open>A run: the events in order, each with its environment and its connection; the
  messages of all handlers are collected. An exception ends the run.\<close>

fun run ::
  "question list \<Rightarrow> (env \<times> string \<times> event) list \<Rightarrow> rooms \<Rightarrow> error + rooms \<times> emit list" where
  "run QUESTION_BANK [] rooms = Inr (rooms, [])"
| "run QUESTION_BANK ((e, sid, ev) # rest) rooms =
     (case handle QUESTION_BANK e sid ev rooms of
        Inl err \<Rightarrow> Inl err
      | Inr (rooms', out) \<Rightarrow>
          (case run QUESTION_BANK rest rooms' of
             Inl err \<Rightarrow> Inl err
           | Inr (rooms'', out') \<Rightarrow> Inr (rooms'', out @ out')))"

subsection \<open>The invariants of a room\<close>

text \<open>The invariants the data model states for a room: \<open>done\<close> is a subset of the keys of
  \<open>players\<close>; the queue is not empty; the cursor is a valid index while a question is
  shown or answered; the round target of a fixed room is the length of its queue.\<close>

definition room_ok :: "room \<Rightarrow> bool" where
  "room_ok r =
     (fset (doneSet r) \<subseteq> fst ` set (players r)
      \<and> questions r \<noteq> []
      \<and> (state r = in_question \<or> state r = showing_answer \<longrightarrow> questionIndex r < length (questions r))
      \<and> (\<not> isUnlimited r \<longrightarrow> totalRounds r = Fixed (int (length (questions r)))))"

definition rooms_ok :: "rooms \<Rightarrow> bool" where
  "rooms_ok rooms = (\<forall>kv\<in>set rooms. room_ok (snd kv))"

subsection \<open>Observing the messages of one room\<close>

text \<open>\<open>msgs roomId nm out\<close>: the messages named \<open>nm\<close> that were broadcast to the room.\<close>

definition msgs :: "string \<Rightarrow> string \<Rightarrow> emit list \<Rightarrow> emit list" where
  "msgs roomId nm out = filter (\<lambda>m. fst m = To roomId \<and> fst (snd m) = nm) out"

text \<open>\<open>quiet roomId out\<close>: none of the three broadcasts of a round went to the room.\<close>

definition quiet :: "string \<Rightarrow> emit list \<Rightarrow> bool" where
  "quiet roomId out =
     (msgs roomId ''questionStarted'' out = [] \<and> msgs roomId ''showAnswer'' out = []
      \<and> msgs roomId ''gameOver'' out = [])"

text \<open>The condition under which a handler broadcasts \<^verbatim>\<open>showAnswer\<close> to a room \<open>r\<close> in
  state \<open>in_question\<close>: a \<^verbatim>\<open>playerDone\<close> that passes both guards and completes the count,
  or a \<^verbatim>\<open>hostRevealAnswer\<close> of the host of a room without players.\<close>

definition reveals :: "string \<Rightarrow> room \<Rightarrow> string \<Rightarrow> event \<Rightarrow> bool" where
  "reveals roomId r sid ev =
     (state r = in_question \<and>
      (case ev of
         PlayerDone k ans \<Rightarrow>
           k = roomId \<and> map_of (players r) sid \<noteq> None \<and> sid |\<notin>| doneSet r
           \<and> fcard (finsert sid (doneSet r)) \<ge> length (players r)
       | HostRevealAnswer k \<Rightarrow> k = roomId \<and> sid = hostId r \<and> players r = []
       | _ \<Rightarrow> False))"

text \<open>An event inside one round of the room \<open>roomId\<close> with host \<open>h\<close>: any event of any
  connection, but for the host's \<^verbatim>\<open>hostNext\<close> (which ends the round), the host's
  \<^verbatim>\<open>startGame\<close>, the host's disconnection (which deletes the room) and a
  \<^verbatim>\<open>createRoom\<close> that draws the id of the room again.\<close>

definition in_round :: "string \<Rightarrow> string \<Rightarrow> env \<times> string \<times> event \<Rightarrow> bool" where
  "in_round roomId h x =
     (case snd (snd x) of
        CreateRoom req \<Rightarrow> createRoomId (fst x) \<noteq> roomId
      | StartGame k \<Rightarrow> k \<noteq> roomId \<or> fst (snd x) \<noteq> h
      | HostNext k \<Rightarrow> k \<noteq> roomId \<or> fst (snd x) \<noteq> h
      | Disconnect \<Rightarrow> fst (snd x) \<noteq> h
      | _ \<Rightarrow> True)"

text \<open>An event of a run without disconnections after the host has started the room
  \<open>roomId\<close>: as above, with \<^verbatim>\<open>hostNext\<close> allowed and every disconnection excluded.\<close>

definition in_play :: "string \<Rightarrow> string \<Rightarrow> env \<times> string \<times> event \<Rightarrow> bool" where
  "in_play roomId h x =
     (case snd (snd x) of
        CreateRoom req \<Rightarrow> createRoomId (fst x) \<noteq> roomId
      | StartGame k \<Rightarrow> k \<noteq> roomId \<or> fst (snd x) \<noteq> h
      | Disconnect \<Rightarrow> False
      | _ \<Rightarrow> True)"

text \<open>An event that leaves the room \<open>roomId\<close> with host \<open>h\<close> in the registry and does not
  start it again: any event but the host's \<^verbatim>\<open>startGame\<close>, the host's disconnection and
  a \<^verbatim>\<open>createRoom\<close> that draws the id of the room again.\<close>

definition no_restart :: "string \<Rightarrow> string \<Rightarrow> env \<times> string \<times> event \<Rightarrow> bool" where
  "no_restart roomId h x =
     (case snd (snd x) of
        CreateRoom req \<Rightarrow> createRoomId (fst x) \<noteq> roomId
      | StartGame k \<Rightarrow> k \<noteq> roomId \<or> fst (snd x) \<noteq> h
      | Disconnect \<Rightarrow> fst (snd x) \<noteq> h
      | _ \<Rightarrow> True)"

text \<open>The three property names that carry the solution of a question.\<close>

definition secret :: "string \<Rightarrow> bool" where
  "secret k = (k = ''answer'' \<or> k = ''keywords'' \<or> k = ''correctOption'')"

subsection \<open>Concrete inputs\<close>

text \<open>A bank question (the first entry of \<^verbatim>\<open>QUESTION_BANK\<close>, its texts shortened), two
  environments that differ in every draw, and requests for a one-round, a two-round
  and an unlimited room.\<close>

definition qA :: question where
  "qA = \<lparr> qid = ''g9-m-ns-1'', grade = 9, subject = ''Mathematics'', qchapter = ''Number Systems'',
          qtype = QT_MCQ, source = ''exemplar'', question = ''Which of the following is irrational?'',
          answer = ''The third one.'', qkeywords = [''irrational''],
          options = Some [''a'', ''b'', ''c'', ''d''], correctOption = Some 3,
          diagram = None, image_search_query = None \<rparr>"

definition qB :: question where
  "qB = qA\<lparr> qid := ''g9-m-ns-2'', qtype := QT_SHORT, options := None, correctOption := None \<rparr>"

definition env0 :: env where
  "env0 = \<lparr> now = 1000, aiReply = None, shuffleDraw = (\<lambda>i. i), idDraw = (\<lambda>k. (''t0'', decimal k)),
            bodyDraw = (\<lambda>k. \<lparr> b_question = ''Q'', b_answer = ''A'', b_keywords = [], b_options = [] \<rparr>),
            roomIdDraw = (\<lambda>i. 0), svgExists = (\<lambda>s. False), publicUrl = None \<rparr>"

definition env1 :: env where
  "env1 = \<lparr> now = 2500, aiReply = None, shuffleDraw = (\<lambda>i. 0), idDraw = (\<lambda>k. (''t1'', decimal (k + 7))),
            bodyDraw = (\<lambda>k. \<lparr> b_question = ''Q1'', b_answer = ''A1'', b_keywords = [], b_options = [] \<rparr>),
            roomIdDraw = (\<lambda>i. i), svgExists = (\<lambda>s. True), publicUrl = Some ''http://quiz'' \<rparr>"

definition req_rounds :: "int \<Rightarrow> create_req" where
  "req_rounds n = \<lparr> c_hostName = ''Ann'', c_totalRounds = Some n, c_grade = Some 9,
                    c_subject = ''Mathematics'', c_chapter = [], c_useAi = False, c_playAsHost = False \<rparr>"

text \<open>A room in the middle of a round: two players, the first of them done.\<close>

definition room_mid :: room where
  "room_mid =
     \<lparr> rid = ''AAAAA'', hostId = ''h'', hostName = ''Ann'',
       players = [(''p1'', \<lparr> pid = ''p1'', name = ''Bob'' \<rparr>), (''p2'', \<lparr> pid = ''p2'', name = ''Cy'' \<rparr>)],
       questions = [qA, qB], questionIndex = 0, totalRounds = Fixed 2, isUnlimited = False,
       filterParams = \<lparr> fgrade = Some 9, fsubject = ''Mathematics'', fchapter = [], fuseAi = False \<rparr>,
       doneSet = {|''p1''|}, finishTimes = [(''p1'', 500)], answers = [(''p1'', JNum 3)],
       state = in_question, startTime = Some 1000 \<rparr>"

text \<open>The run that leads to \<open>room_mid\<close>: the host creates a two-round room over the bank
  \<open>[qA, qB]\<close>, two players join, the host starts, the first player signals.\<close>

definition evs_mid :: "(env \<times> string \<times> event) list" where
  "evs_mid =
     [(env0, ''h'', CreateRoom (req_rounds 2)),
      (env0, ''p1'', JoinRoom ''AAAAA'' ''Bob''),
      (env0, ''p2'', JoinRoom ''AAAAA'' ''Cy''),
      (env0, ''h'', StartGame ''AAAAA''),
      (env0\<lparr> now := 1500 \<rparr>, ''p1'', PlayerDone ''AAAAA'' (JNum 3))]"

definition rooms_mid :: rooms where
  "rooms_mid = [(''AAAAA'', room_mid)]"

text \<open>Events inside the round of \<open>room_mid\<close>: a repeated signal, a signal of a stranger,
  the signal of the second player, and two more events after the answer is shown.\<close>

definition evs_round :: "(env \<times> string \<times> event) list" where
  "evs_round =
     [(env1, ''p1'', PlayerDone ''AAAAA'' JUndef),
      (env1, ''zz'', PlayerDone ''AAAAA'' JUndef),
      (env1, ''p2'', PlayerDone ''AAAAA'' (JNum 3)),
      (env1, ''p2'', PlayerDone ''AAAAA'' (JNum 1)),
      (env1, ''h'', HostRevealAnswer ''AAAAA'')]"

text \<open>After \<open>evs_mid\<close> the second player leaves and the first signals again; later a third
  player joins and signals, and the host advances.\<close>

definition evs_stale :: "(env \<times> string \<times> event) list" where
  "evs_stale = evs_mid @ [(env0, ''p2'', Disconnect), (env1, ''p1'', PlayerDone ''AAAAA'' JUndef)]"

definition evs_late :: "(env \<times> string \<times> event) list" where
  "evs_late =
     [(env1, ''p3'', JoinRoom ''AAAAA'' ''Di''),
      (env1, ''p3'', PlayerDone ''AAAAA'' JUndef),
      (env1, ''h'', HostNext ''AAAAA'')]"

text \<open>After \<open>evs_mid\<close> the second player signals and the host advances to the second
  question.\<close>

definition evs_next :: "(env \<times> string \<times> event) list" where
  "evs_next = evs_mid @ [(env1, ''p2'', PlayerDone ''AAAAA'' JUndef), (env1, ''h'', HostNext ''AAAAA'')]"

text \<open>The registry after \<^verbatim>\<open>createRoom\<close> for two rounds, and a solo run through both.\<close>

definition rooms_new :: rooms where
  "rooms_new = fst (projr (createRoom [qA, qB] env0 ''h'' (req_rounds 2) []))"

definition evs_solo :: "(env \<times> string \<times> event) list" where
  "evs_solo =
     [(env1, ''h'', HostRevealAnswer ''AAAAA''),
      (env1, ''h'', HostNext ''AAAAA''),
      (env1, ''zz'', HostNext ''AAAAA''),
      (env1, ''h'', HostRevealAnswer ''AAAAA''),
      (env1, ''h'', HostNext ''AAAAA''),
      (env1, ''h'', HostNext ''AAAAA'')]"

text \<open>Two runs from the empty registry in which the host sends \<^verbatim>\<open>startGame\<close> a second time:
  twice in a row before the solo run, and once more after it, followed by a second solo
  run.\<close>

definition evs_twice :: "(env \<times> string \<times> event) list" where
  "evs_twice =
     [(env0, ''h'', CreateRoom (req_rounds 2)),
      (env0, ''h'', StartGame ''AAAAA''),
      (env0, ''h'', StartGame ''AAAAA'')] @ evs_solo"

definition evs_again :: "(env \<times> string \<times> event) list" where
  "evs_again =
     [(env0, ''h'', CreateRoom (req_rounds 2)),
      (env0, ''h'', StartGame ''AAAAA'')] @ evs_solo @ [(env1, ''h'', StartGame ''AAAAA'')] @ evs_solo"

text \<open>An unlimited room that shows the answer of its only question, and one that shows
  the answer of the last of five questions, which are the whole bank \<open>bank5\<close>.\<close>

definition room_unl :: room where
  "room_unl =
     room_mid\<lparr> players := [], questions := [qA], totalRounds := Unlimited, isUnlimited := True,
               doneSet := {||}, finishTimes := [], answers := [], state := showing_answer \<rparr>"

definition bank5 :: "question list" where
  "bank5 = map (\<lambda>i. qA\<lparr> qid := ''g9-m-ns-'' @ decimal i \<rparr>) [1, 2, 3, 4, 5]"

definition room_last :: room where
  "room_last = room_unl\<lparr> questions := bank5, questionIndex := 4 \<rparr>"

definition rooms_unl :: rooms where
  "rooms_unl = [(''AAAAA'', room_unl)]"

definition rooms_last :: rooms where
  "rooms_last = [(''AAAAA'', room_last)]"

section \<open>Lemmas\<close>

subsection \<open>The selection: permutation, exclusion, distinct ids\<close>

lemma mset_swap_arr: "i < length arr \<Longrightarrow> j < length arr \<Longrightarrow> mset (swap arr i j) = mset arr"
  unfolding swap_def by (simp add: mset_swap)

lemma length_swap_arr [simp]: "length (swap arr i j) = length arr"
  by (simp add: swap_def)

lemma mset_shuffle_from: "k < length arr \<Longrightarrow> mset (shuffle_from rnd k arr) = mset arr"
proof (induction k arbitrary: arr)
  case 0
  then show ?case by simp
next
  case (Suc k)
  have j: "rnd (Suc k) mod (Suc k + 1) < length arr"
  proof -
    have "rnd (Suc k) mod (Suc k + 1) < Suc k + 1" by simp
    with Suc.prems show ?thesis by linarith
  qed
  have "mset (shuffle_from rnd k (swap arr (Suc k) (rnd (Suc k) mod (Suc k + 1))))
        = mset (swap arr (Suc k) (rnd (Suc k) mod (Suc k + 1)))"
    using Suc.prems by (intro Suc.IH) simp
  also have "\<dots> = mset arr" using Suc.prems j by (rule mset_swap_arr)
  finally show ?case by simp
qed

lemma mset_shuffleArray: "mset (shuffleArray rnd arr) = mset arr"
  by (cases arr) (simp_all add: shuffleArray_def mset_shuffle_from)

lemma set_shuffleArray: "set (shuffleArray rnd xs) = set xs"
  using mset_shuffleArray[of rnd xs] by (metis mset_eq_setD)

lemma distinct_map_shuffle:
  assumes "distinct (map f xs)"
  shows "distinct (map f (shuffleArray rnd xs))"
proof -
  have "mset (map f (shuffleArray rnd xs)) = mset (map f xs)"
    by (simp add: mset_shuffleArray)
  then show ?thesis using assms by (metis mset_eq_imp_distinct_iff)
qed

lemma distinct_map_append_fresh:
  assumes "distinct (map f xs)" "distinct (map f ys)" "\<forall>y\<in>set ys. f y \<notin> f ` set xs"
  shows "distinct (map f (xs @ ys))"
  using assms by (simp add: disjoint_iff image_iff) blast

lemma ai_loop_inv:
  "ai_loop generated out ex = (out', ex') \<Longrightarrow> distinct (map qid out) \<Longrightarrow> qid ` set out \<subseteq> ex
     \<Longrightarrow> distinct (map qid out') \<and> set out \<subseteq> set out' \<and> ex' = ex \<union> qid ` set out'"
proof (induction generated out ex rule: ai_loop.induct)
  case (1 out excludeIds)
  then show ?case by auto
next
  case (2 q generated out excludeIds)
  show ?case
  proof (cases "qid q = [] \<or> qid q \<in> excludeIds")
    case True
    with 2 show ?thesis by simp
  next
    case False
    with "2.prems" have run: "ai_loop generated (out @ [q]) (insert (qid q) excludeIds) = (out', ex')"
      by simp
    have d: "distinct (map qid (out @ [q]))" using False "2.prems" by auto
    have s: "qid ` set (out @ [q]) \<subseteq> insert (qid q) excludeIds" using "2.prems" by auto
    from "2.IH"(2)[OF False run d s] show ?thesis by auto
  qed
qed

lemma fallback_loop_inv:
  "fallback_loop e g s c cnt attempts out ex = (out', ex') \<Longrightarrow> distinct (map qid out)
     \<Longrightarrow> qid ` set out \<subseteq> ex
     \<Longrightarrow> distinct (map qid out') \<and> ex' = ex \<union> qid ` set out'
         \<and> (\<exists>new. out' = out @ new \<and> (\<forall>q\<in>set new. qid q \<notin> ex))
         \<and> length out' \<le> max (length out) cnt"
proof (induction e g s c cnt attempts out ex rule: fallback_loop.induct)
  case (1 e g s c cnt attempts out excludeIds)
  let ?q = "fallback_candidate e (attempts + 1) g s c"
  show ?case
  proof (cases "length out < cnt \<and> attempts < cnt * 12")
    case False
    with "1.prems" have "out' = out" "ex' = excludeIds"
      by (simp_all add: fallback_loop.simps[of e g s c cnt attempts out excludeIds])
    with "1.prems" show ?thesis by auto
  next
    case go: True
    show ?thesis
    proof (cases "qid ?q \<in> excludeIds")
      case True
      with go "1.prems" have run: "fallback_loop e g s c cnt (attempts + 1) out excludeIds = (out', ex')"
        by (simp add: fallback_loop.simps[of e g s c cnt attempts out excludeIds] Let_def)
      from "1.IH"(1)[OF go refl refl True run "1.prems"(2,3)] show ?thesis .
    next
      case False
      with go "1.prems" have run:
        "fallback_loop e g s c cnt (attempts + 1) (out @ [?q]) (insert (qid ?q) excludeIds) = (out', ex')"
        by (simp add: fallback_loop.simps[of e g s c cnt attempts out excludeIds] Let_def)
      have d: "distinct (map qid (out @ [?q]))" using False "1.prems" by auto
      have s: "qid ` set (out @ [?q]) \<subseteq> insert (qid ?q) excludeIds" using "1.prems" by auto
      from "1.IH"(2)[OF go refl refl False run d s]
      have r: "distinct (map qid out')" "ex' = insert (qid ?q) excludeIds \<union> qid ` set out'"
        "\<exists>new. out' = (out @ [?q]) @ new \<and> (\<forall>q\<in>set new. qid q \<notin> insert (qid ?q) excludeIds)"
        "length out' \<le> max (length (out @ [?q])) cnt"
        by blast+
      from r(3) obtain new where new: "out' = (out @ [?q]) @ new"
        "\<forall>q\<in>set new. qid q \<notin> insert (qid ?q) excludeIds" by blast
      have "out' = out @ (?q # new) \<and> (\<forall>q\<in>set (?q # new). qid q \<notin> excludeIds)"
        using new False by auto
      then have ex: "\<exists>new. out' = out @ new \<and> (\<forall>q\<in>set new. qid q \<notin> excludeIds)" by blast
      have "ex' = excludeIds \<union> qid ` set out'" using r(2) new(1) by auto
      moreover have "length out' \<le> max (length out) cnt" using r(4) go by auto
      ultimately show ?thesis using r(1) ex by blast
    qed
  qed
qed

lemma fallback_fresh:
  assumes "q \<in> set (fst (generateQuestionsFallback e g s c cnt ex))"
  shows "qid q \<notin> ex"
proof -
  obtain out' ex' where run: "fallback_loop e g s c cnt 0 [] ex = (out', ex')"
    by (cases "fallback_loop e g s c cnt 0 [] ex")
  from fallback_loop_inv[OF run] have "\<forall>q\<in>set out'. qid q \<notin> ex" by auto
  with assms run show ?thesis by (simp add: generateQuestionsFallback_def)
qed

lemma fallback_distinct: "distinct (map qid (fst (generateQuestionsFallback e g s c cnt ex)))"
proof -
  obtain out' ex' where run: "fallback_loop e g s c cnt 0 [] ex = (out', ex')"
    by (cases "fallback_loop e g s c cnt 0 [] ex")
  from fallback_loop_inv[OF run] have "distinct (map qid out')" by auto
  with run show ?thesis by (simp add: generateQuestionsFallback_def)
qed

lemma fallback_length: "length (fst (generateQuestionsFallback e g s c cnt ex)) \<le> cnt"
proof -
  obtain out' ex' where run: "fallback_loop e g s c cnt 0 [] ex = (out', ex')"
    by (cases "fallback_loop e g s c cnt 0 [] ex")
  from fallback_loop_inv[OF run] have "length out' \<le> cnt" by auto
  with run show ?thesis by (simp add: generateQuestionsFallback_def)
qed

lemma fallback_loop_first:
  assumes "0 < cnt" "qid (fallback_candidate e 1 g s c) \<notin> ex"
  shows "fst (fallback_loop e g s c cnt 0 [] ex) \<noteq> []"
proof -
  let ?q = "fallback_candidate e 1 g s c"
  obtain out' ex' where run: "fallback_loop e g s c cnt 1 [?q] (insert (qid ?q) ex) = (out', ex')"
    by (cases "fallback_loop e g s c cnt 1 [?q] (insert (qid ?q) ex)")
  have "\<exists>new. out' = [?q] @ new \<and> (\<forall>q\<in>set new. qid q \<notin> insert (qid ?q) ex)"
    using fallback_loop_inv[OF run] by auto
  then have "out' \<noteq> []" by auto
  moreover have "fallback_loop e g s c cnt 0 [] ex = (out', ex')"
    using assms run by (simp add: fallback_loop.simps[of e g s c cnt 0 "[]" ex] Let_def)
  ultimately show ?thesis by simp
qed

text \<open>The pair of \<open>selected\<close> and \<open>excludeIds\<close> between the steps: the ids of the
  selection are pairwise distinct, and exactly they are excluded.\<close>

lemma select_ai_inv:
  "snd (select_ai e useAi) = qid ` set (fst (select_ai e useAi))
   \<and> distinct (map qid (fst (select_ai e useAi)))"
proof (cases "useAi \<and> aiReply e \<noteq> None")
  case False
  then show ?thesis by (auto simp: select_ai_def generateQuestionsAI_def)
next
  case True
  then obtain generated where g: "aiReply e = Some generated" by auto
  obtain out' ex' where run: "ai_loop generated [] {} = (out', ex')"
    by (cases "ai_loop generated [] {}")
  from ai_loop_inv[OF run] have "distinct (map qid out')" "ex' = qid ` set out'" by auto
  with True g run show ?thesis by (simp add: select_ai_def generateQuestionsAI_def)
qed

lemma select_ai_ids: "snd (select_ai e useAi) = qid ` set (fst (select_ai e useAi))"
  using select_ai_inv by blast

lemma select_ai_distinct: "distinct (map qid (fst (select_ai e useAi)))"
  using select_ai_inv by blast

lemma select_bank_ids:
  assumes "snd st = qid ` set (fst st)"
  shows "snd (select_bank QUESTION_BANK e grade0 subject0 chapter0 questionType requested st)
         = qid ` set (fst (select_bank QUESTION_BANK e grade0 subject0 chapter0 questionType requested st))"
  using assms by (simp add: select_bank_def Let_def image_Un)

lemma select_bank_distinct:
  assumes bank: "distinct (map qid QUESTION_BANK)"
    and st: "distinct (map qid (fst st))" "snd st = qid ` set (fst st)"
  shows "distinct (map qid (fst (select_bank QUESTION_BANK e grade0 subject0 chapter0 questionType requested st)))"
proof (cases "length (fst st) < requested")
  case False
  then show ?thesis using st by (simp add: select_bank_def Let_def)
next
  case True
  define f5 where "f5 = filter (\<lambda>q. qid q \<notin> snd st) (bank_filter QUESTION_BANK grade0 subject0 chapter0 questionType)"
  define fromBank where "fromBank = take (requested - length (fst st)) (shuffleArray (shuffleDraw e) f5)"
  have res: "fst (select_bank QUESTION_BANK e grade0 subject0 chapter0 questionType requested st)
        = fst st @ fromBank"
    using True by (simp add: select_bank_def Let_def f5_def fromBank_def)
  have "distinct (map qid (bank_filter QUESTION_BANK grade0 subject0 chapter0 questionType))"
    using bank by (simp add: bank_filter_def Let_def distinct_map_filter)
  then have d5: "distinct (map qid f5)" by (simp add: f5_def distinct_map_filter)
  have "distinct (map qid (shuffleArray (shuffleDraw e) f5))" using d5 by (rule distinct_map_shuffle)
  then have dfb: "distinct (map qid fromBank)" by (simp add: fromBank_def take_map[symmetric])
  have "set fromBank \<subseteq> set f5" unfolding fromBank_def
    using set_take_subset set_shuffleArray by metis
  then have fresh: "\<forall>q\<in>set fromBank. qid q \<notin> qid ` set (fst st)" using st(2) by (auto simp: f5_def)
  have "distinct (map qid (fst st @ fromBank))"
    using st(1) dfb fresh by (rule distinct_map_append_fresh)
  then show ?thesis by (simp add: res)
qed

lemma select_bank_length:
  "length (fst st) \<le> requested \<Longrightarrow>
   length (fst (select_bank QUESTION_BANK e grade0 subject0 chapter0 questionType requested st)) \<le> requested"
  by (auto simp: select_bank_def Let_def)

text \<open>\<open>selectQuestions\<close> with its local variables named.\<close>

lemma selectQuestions_unfold:
  "selectQuestions QUESTION_BANK e grade0 subject0 chapter0 rounds questionType useAi =
     (let requested = nat (max 1 (if rounds = 0 then 5 else rounds));
          st2 = select_bank QUESTION_BANK e grade0 subject0 chapter0 questionType requested (select_ai e useAi)
      in if length (fst st2) < requested then
           fst st2 @ fst (generateQuestionsFallback e (if truthy_grade grade0 then the grade0 else 10)
                            (if subject0 \<noteq> [] then subject0 else ''Mathematics'') chapter0
                            (requested - length (fst st2)) (snd st2))
         else fst st2)"
  by (simp add: selectQuestions_def Let_def)

lemma select_distinct:
  assumes bank: "distinct (map qid QUESTION_BANK)"
  shows "distinct (map qid (selectQuestions QUESTION_BANK e grade0 subject0 chapter0 rounds questionType useAi))"
proof -
  define requested where "requested = nat (max 1 (if rounds = 0 then 5 else rounds))"
  define st2 where "st2 = select_bank QUESTION_BANK e grade0 subject0 chapter0 questionType requested (select_ai e useAi)"
  have ids: "snd st2 = qid ` set (fst st2)"
    unfolding st2_def by (rule select_bank_ids[OF select_ai_ids])
  have d2: "distinct (map qid (fst st2))"
    unfolding st2_def by (rule select_bank_distinct[OF bank select_ai_distinct select_ai_ids])
  show ?thesis
  proof (cases "length (fst st2) < requested")
    case False
    then show ?thesis using d2 by (simp add: selectQuestions_unfold Let_def requested_def st2_def)
  next
    case True
    let ?fb = "fst (generateQuestionsFallback e (if truthy_grade grade0 then the grade0 else 10)
                            (if subject0 \<noteq> [] then subject0 else ''Mathematics'') chapter0
                            (requested - length (fst st2)) (snd st2))"
    have "\<forall>q\<in>set ?fb. qid q \<notin> qid ` set (fst st2)" using fallback_fresh ids by blast
    with d2 fallback_distinct have "distinct (map qid (fst st2 @ ?fb))"
      by (intro distinct_map_append_fresh)
    then show ?thesis using True by (simp add: selectQuestions_unfold Let_def requested_def st2_def)
  qed
qed

lemma select_nonempty:
  "selectQuestions QUESTION_BANK e grade0 subject0 chapter0 rounds questionType useAi \<noteq> []"
proof -
  define requested where "requested = nat (max 1 (if rounds = 0 then 5 else rounds))"
  define st2 where "st2 = select_bank QUESTION_BANK e grade0 subject0 chapter0 questionType requested (select_ai e useAi)"
  have req: "0 < requested" by (simp add: requested_def)
  have ids: "snd st2 = qid ` set (fst st2)"
    unfolding st2_def by (rule select_bank_ids[OF select_ai_ids])
  show ?thesis
  proof (cases "fst st2 = []")
    case False
    then show ?thesis by (simp add: selectQuestions_unfold Let_def requested_def st2_def)
  next
    case True
    then have "snd st2 = {}" using ids by simp
    then have "fst (generateQuestionsFallback e (if truthy_grade grade0 then the grade0 else 10)
                            (if subject0 \<noteq> [] then subject0 else ''Mathematics'') chapter0 requested (snd st2)) \<noteq> []"
      using fallback_loop_first[OF req] by (simp add: generateQuestionsFallback_def)
    then show ?thesis using True req by (simp add: selectQuestions_unfold Let_def requested_def st2_def)
  qed
qed

lemma select_length_noai:
  "length (selectQuestions QUESTION_BANK e grade0 subject0 chapter0 rounds questionType False)
     \<le> nat (max 1 (if rounds = 0 then 5 else rounds))"
proof -
  define requested where "requested = nat (max 1 (if rounds = 0 then 5 else rounds))"
  define st2 where "st2 = select_bank QUESTION_BANK e grade0 subject0 chapter0 questionType requested (select_ai e False)"
  have "length (fst (select_ai e False)) \<le> requested" by (simp add: select_ai_def)
  then have l2: "length (fst st2) \<le> requested" unfolding st2_def by (rule select_bank_length)
  show ?thesis
  proof (cases "length (fst st2) < requested")
    case False
    then show ?thesis using l2 by (simp add: selectQuestions_unfold Let_def requested_def st2_def)
  next
    case True
    have "length (fst (generateQuestionsFallback e (if truthy_grade grade0 then the grade0 else 10)
                            (if subject0 \<noteq> [] then subject0 else ''Mathematics'') chapter0
                            (requested - length (fst st2)) (snd st2))) \<le> requested - length (fst st2)"
      by (rule fallback_length)
    then show ?thesis using True
      by (simp add: selectQuestions_unfold Let_def requested_def[symmetric] st2_def[symmetric])
  qed
qed

subsection \<open>Association lists\<close>

lemma set_update_cases:
  "kv \<in> set (AList.update k v al) \<Longrightarrow> kv = (k, v) \<or> kv \<in> set al"
  by (induction al) (auto split: if_splits)

lemma dom_delete: "fst ` set (AList.delete k al) = fst ` set al - {k}"
  by (induction al) auto

lemma map_of_update_same [simp]: "map_of (AList.update k v al) k = Some v"
  by (simp add: update_conv')

lemma map_of_update_other [simp]: "k' \<noteq> k \<Longrightarrow> map_of (AList.update k v al) k' = map_of al k'"
  by (simp add: update_conv')

subsection \<open>The fields after each assignment block\<close>

lemma reset_round_fields [simp]:
  "state (reset_round e r) = in_question"
  "doneSet (reset_round e r) = {||}"
  "finishTimes (reset_round e r) = []"
  "answers (reset_round e r) = []"
  "startTime (reset_round e r) = Some (now e)"
  "players (reset_round e r) = players r"
  "questions (reset_round e r) = questions r"
  "questionIndex (reset_round e r) = questionIndex r"
  "totalRounds (reset_round e r) = totalRounds r"
  "isUnlimited (reset_round e r) = isUnlimited r"
  "hostId (reset_round e r) = hostId r"
  "filterParams (reset_round e r) = filterParams r"
  by (simp_all add: reset_round_def)

lemma record_done_fields [simp]:
  "state (record_done e sid ans r) = state r"
  "doneSet (record_done e sid ans r) = finsert sid (doneSet r)"
  "players (record_done e sid ans r) = players r"
  "questions (record_done e sid ans r) = questions r"
  "questionIndex (record_done e sid ans r) = questionIndex r"
  "totalRounds (record_done e sid ans r) = totalRounds r"
  "isUnlimited (record_done e sid ans r) = isUnlimited r"
  "hostId (record_done e sid ans r) = hostId r"
  "filterParams (record_done e sid ans r) = filterParams r"
  by (simp_all add: record_done_def)

lemma remove_player_fields [simp]:
  "state (remove_player sid r) = state r"
  "doneSet (remove_player sid r) = doneSet r |-| {|sid|}"
  "players (remove_player sid r) = AList.delete sid (players r)"
  "questions (remove_player sid r) = questions r"
  "questionIndex (remove_player sid r) = questionIndex r"
  "totalRounds (remove_player sid r) = totalRounds r"
  "isUnlimited (remove_player sid r) = isUnlimited r"
  "hostId (remove_player sid r) = hostId r"
  "filterParams (remove_player sid r) = filterParams r"
  by (simp_all add: remove_player_def)

lemma add_player_fields [simp]:
  "state (add_player sid nm r) = state r"
  "doneSet (add_player sid nm r) = doneSet r"
  "fst ` set (players (add_player sid nm r)) = insert sid (fst ` set (players r))"
  "questions (add_player sid nm r) = questions r"
  "questionIndex (add_player sid nm r) = questionIndex r"
  "totalRounds (add_player sid nm r) = totalRounds r"
  "isUnlimited (add_player sid nm r) = isUnlimited r"
  "hostId (add_player sid nm r) = hostId r"
  "filterParams (add_player sid nm r) = filterParams r"
  by (simp_all add: add_player_def dom_update)

lemma replenish_fields [simp]:
  "state (replenish B e r) = state r"
  "doneSet (replenish B e r) = doneSet r"
  "players (replenish B e r) = players r"
  "questionIndex (replenish B e r) = questionIndex r"
  "totalRounds (replenish B e r) = totalRounds r"
  "isUnlimited (replenish B e r) = isUnlimited r"
  "hostId (replenish B e r) = hostId r"
  "filterParams (replenish B e r) = filterParams r"
  by (simp_all add: replenish_def Let_def)

lemma new_room_fields [simp]:
  "state (new_room roomId sid req qs u) = waiting"
  "doneSet (new_room roomId sid req qs u) = {||}"
  "questions (new_room roomId sid req qs u) = qs"
  "questionIndex (new_room roomId sid req qs u) = 0"
  "totalRounds (new_room roomId sid req qs u) = (if u then Unlimited else Fixed (int (length qs)))"
  "isUnlimited (new_room roomId sid req qs u) = u"
  "hostId (new_room roomId sid req qs u) = sid"
  by (simp_all add: new_room_def)

lemma current_question_cong:
  "questions r' = questions r \<Longrightarrow> questionIndex r' = questionIndex r
     \<Longrightarrow> current_question r' = current_question r"
  by (simp add: current_question_def)

lemma current_question_simps [simp]:
  "current_question (reset_round e r) = current_question r"
  "current_question (record_done e sid ans r) = current_question r"
  "current_question (remove_player sid r) = current_question r"
  "current_question (add_player sid nm r) = current_question r"
  "current_question (r\<lparr> state := st \<rparr>) = current_question r"
  by (simp_all add: current_question_def)

subsection \<open>What each handler can return\<close>

lemma initial_questions_nonempty: "initial_questions B e req \<noteq> []"
  by (simp add: initial_questions_def select_nonempty)

lemma createRoom_result:
  "createRoom B e sid req rooms =
     Inr (AList.update (createRoomId e)
            (new_room (createRoomId e) sid req (initial_questions B e req) (parsed_rounds req = - 1)) rooms,
          [(Reply, ''roomCreated'',
            JObj [(''roomId'', JStr (createRoomId e)),
                  (''joinUrl'', case publicUrl e of
                                  None \<Rightarrow> JNull
                                | Some b \<Rightarrow> if b = [] then JNull else JStr (b @ ''/join/'' @ createRoomId e)),
                  (''totalRounds'', JNum (int (length (initial_questions B e req)))),
                  (''hostName'', JStr (host_name req))])])"
  by (simp add: createRoom_def Let_def initial_questions_nonempty)

lemma joinRoom_cases:
  assumes "joinRoom e sid roomId nm rooms = Inr (rooms', out)"
  obtains (missing) "map_of rooms roomId = None" "rooms' = rooms"
      "out = [(Reply, ''errorMessage'', JStr ''Room not found.'')]"
  | (host) r where "map_of rooms roomId = Some r" "hostId r = sid" "rooms' = rooms"
      "out = [(Reply, ''errorMessage'', JStr ''You are the host.'')]"
  | (joined) r st where "map_of rooms roomId = Some r" "hostId r \<noteq> sid"
      "getPublicRoomState e (add_player sid nm r) = Inr st"
      "rooms' = AList.update roomId (add_player sid nm r) rooms"
      "out = [(To (hostId r), ''playerListUpdate'', JObj [(''players'', players_json (add_player sid nm r))]),
              (Reply, ''joinedRoom'',
               JObj [(''roomId'', JStr roomId),
                     (''playerName'', case map_of (players (add_player sid nm r)) sid of
                                        None \<Rightarrow> JUndef | Some p \<Rightarrow> JStr (name p)),
                     (''state'', st)])]"
  using assms by (auto simp: joinRoom_def Let_def split: option.splits if_splits sum.splits)

lemma start_round_cases:
  assumes "start_round e roomId r rooms = Inr (rooms', out)"
  obtains q where "current_question r = Some q"
      "rooms' = AList.update roomId (reset_round e r) rooms"
      "out = [(To roomId, ''questionStarted'', questionStarted_payload e (reset_round e r) q)]"
  using assms by (auto simp: start_round_def Let_def split: option.splits)

lemma startGame_cases:
  assumes "startGame e sid roomId rooms = Inr (rooms', out)"
  obtains (ignored) "rooms' = rooms" "out = []"
      "map_of rooms roomId = None \<or> (\<exists>r. map_of rooms roomId = Some r \<and> hostId r \<noteq> sid)"
  | (started) r q where "map_of rooms roomId = Some r" "hostId r = sid"
      "current_question (r\<lparr> questionIndex := 0 \<rparr>) = Some q"
      "rooms' = AList.update roomId (reset_round e (r\<lparr> questionIndex := 0 \<rparr>)) rooms"
      "out = [(To roomId, ''questionStarted'',
               questionStarted_payload e (reset_round e (r\<lparr> questionIndex := 0 \<rparr>)) q)]"
  using assms
  by (auto simp: startGame_def split: option.splits if_splits elim!: start_round_cases)

lemma playerDone_cases:
  assumes "playerDone e sid roomId ans rooms = Inr (rooms', out)"
  obtains (ignored) "rooms' = rooms" "out = []"
      "map_of rooms roomId = None \<or>
       (\<exists>r. map_of rooms roomId = Some r \<and>
            (state r \<noteq> in_question \<or> map_of (players r) sid = None \<or> sid |\<in>| doneSet r))"
  | (recorded) r where "map_of rooms roomId = Some r" "state r = in_question"
      "map_of (players r) sid \<noteq> None" "sid |\<notin>| doneSet r"
      "fcard (finsert sid (doneSet r)) < length (players r)"
      "rooms' = AList.update roomId (record_done e sid ans r) rooms" "out = []"
  | (revealed) r q where "map_of rooms roomId = Some r" "state r = in_question"
      "map_of (players r) sid \<noteq> None" "sid |\<notin>| doneSet r"
      "fcard (finsert sid (doneSet r)) \<ge> length (players r)"
      "current_question r = Some q"
      "rooms' = AList.update roomId ((record_done e sid ans r)\<lparr> state := showing_answer \<rparr>) rooms"
      "out = [(To roomId, ''showAnswer'',
               showAnswer_payload e ((record_done e sid ans r)\<lparr> state := showing_answer \<rparr>) q
                 (JObj (times_of ((record_done e sid ans r)\<lparr> state := showing_answer \<rparr>)))
                 (JObj (playerAnswers_of ((record_done e sid ans r)\<lparr> state := showing_answer \<rparr>) q)))]"
proof (cases "map_of rooms roomId")
  case None
  with assms ignored show ?thesis by (simp add: playerDone_def)
next
  case (Some r)
  show ?thesis
  proof (cases "state r \<noteq> in_question \<or> map_of (players r) sid = None \<or> sid |\<in>| doneSet r")
    case True
    with assms Some have "rooms' = rooms" "out = []" by (auto simp: playerDone_def split: if_splits)
    with True Some ignored show ?thesis by blast
  next
    case False
    show ?thesis
    proof (cases "fcard (finsert sid (doneSet r)) \<ge> length (players r)")
      case True
      with assms Some False obtain q where "current_question r = Some q"
        "rooms' = AList.update roomId ((record_done e sid ans r)\<lparr> state := showing_answer \<rparr>) rooms"
        "out = [(To roomId, ''showAnswer'',
               showAnswer_payload e ((record_done e sid ans r)\<lparr> state := showing_answer \<rparr>) q
                 (JObj (times_of ((record_done e sid ans r)\<lparr> state := showing_answer \<rparr>)))
                 (JObj (playerAnswers_of ((record_done e sid ans r)\<lparr> state := showing_answer \<rparr>) q)))]"
        by (auto simp: playerDone_def Let_def split: option.splits)
      with Some False True revealed show ?thesis by blast
    next
      case nf: False
      with assms Some False have "rooms' = AList.update roomId (record_done e sid ans r) rooms" "out = []"
        by (auto simp: playerDone_def Let_def)
      with Some False nf recorded show ?thesis by auto
    qed
  qed
qed

lemma hostRevealAnswer_cases:
  assumes "hostRevealAnswer e sid roomId rooms = Inr (rooms', out)"
  obtains (ignored) "rooms' = rooms" "out = []"
      "map_of rooms roomId = None \<or>
       (\<exists>r. map_of rooms roomId = Some r \<and>
            (hostId r \<noteq> sid \<or> state r \<noteq> in_question \<or> players r \<noteq> []))"
  | (revealed) r q where "map_of rooms roomId = Some r" "hostId r = sid" "state r = in_question"
      "players r = []" "current_question r = Some q"
      "rooms' = AList.update roomId (r\<lparr> state := showing_answer \<rparr>) rooms"
      "out = [(To roomId, ''showAnswer'',
               showAnswer_payload e (r\<lparr> state := showing_answer \<rparr>) q (JObj []) (JObj []))]"
  using assms
  by (auto simp: hostRevealAnswer_def Let_def split: option.splits if_splits)

lemma hostNext_cases:
  assumes "hostNext B e sid roomId rooms = Inr (rooms', out)"
  obtains (ignored) "rooms' = rooms" "out = []"
      "map_of rooms roomId = None \<or>
       (\<exists>r. map_of rooms roomId = Some r \<and> (hostId r \<noteq> sid \<or> state r \<noteq> showing_answer))"
  | (over) r r1 t where "map_of rooms roomId = Some r" "hostId r = sid" "state r = showing_answer"
      "r1 = r\<lparr> questionIndex := questionIndex r + 1 \<rparr> \<and> \<not> isUnlimited r
            \<and> reached (questionIndex r + 1) (totalRounds r) \<and> t = total_json (totalRounds r)
       \<or> r1 = replenish B e (r\<lparr> questionIndex := questionIndex r + 1 \<rparr>) \<and> isUnlimited r
            \<and> length (questions r) \<le> questionIndex r + 3
            \<and> length (questions r1) \<le> questionIndex r + 1 \<and> t = JNum (int (questionIndex r) + 1)"
      "rooms' = AList.update roomId (r1\<lparr> state := finished \<rparr>) rooms"
      "out = [(To roomId, ''gameOver'', JObj [(''totalRounds'', t)])]"
  | (advanced) r r1 q where "map_of rooms roomId = Some r" "hostId r = sid" "state r = showing_answer"
      "r1 = r\<lparr> questionIndex := questionIndex r + 1 \<rparr>
            \<and> (isUnlimited r \<longrightarrow> questionIndex r + 3 < length (questions r))
            \<and> (\<not> isUnlimited r \<longrightarrow> \<not> reached (questionIndex r + 1) (totalRounds r))
       \<or> r1 = replenish B e (r\<lparr> questionIndex := questionIndex r + 1 \<rparr>) \<and> isUnlimited r
            \<and> length (questions r) \<le> questionIndex r + 3
            \<and> questionIndex r + 1 < length (questions r1)"
      "current_question r1 = Some q"
      "rooms' = AList.update roomId (reset_round e r1) rooms"
      "out = [(To roomId, ''questionStarted'', questionStarted_payload e (reset_round e r1) q)]"
proof (cases "map_of rooms roomId")
  case None
  with assms ignored show ?thesis by (simp add: hostNext_def)
next
  case (Some r)
  let ?r1 = "r\<lparr> questionIndex := questionIndex r + 1 \<rparr>"
  show ?thesis
  proof (cases "hostId r \<noteq> sid \<or> state r \<noteq> showing_answer")
    case True
    with assms Some have "rooms' = rooms" "out = []" by (auto simp: hostNext_def)
    with True Some ignored show ?thesis by blast
  next
    case acc: False
    show ?thesis
    proof (cases "\<not> isUnlimited r \<and> reached (questionIndex r + 1) (totalRounds r)")
      case True
      with assms Some acc have "rooms' = AList.update roomId (?r1\<lparr> state := finished \<rparr>) rooms"
        "out = [(To roomId, ''gameOver'', JObj [(''totalRounds'', total_json (totalRounds r))])]"
        by (auto simp: hostNext_def Let_def game_over_def)
      with Some acc True over[of r ?r1 "total_json (totalRounds r)"] show ?thesis by auto
    next
      case nr: False
      show ?thesis
      proof (cases "isUnlimited r \<and> length (questions r) \<le> questionIndex r + 3")
        case low: True
        let ?r2 = "replenish B e ?r1"
        show ?thesis
        proof (cases "length (questions ?r2) \<le> questionIndex r + 1")
          case True
          with assms Some acc nr low
          have "rooms' = AList.update roomId (?r2\<lparr> state := finished \<rparr>) rooms"
            "out = [(To roomId, ''gameOver'', JObj [(''totalRounds'', JNum (int (questionIndex r) + 1))])]"
            by (auto simp: hostNext_def Let_def game_over_def)
          with Some acc low True over[of r ?r2 "JNum (int (questionIndex r) + 1)"] show ?thesis by auto
        next
          case False
          with assms Some acc nr low
          have "start_round e roomId ?r2 rooms = Inr (rooms', out)"
            by (auto simp: hostNext_def Let_def)
          then obtain q where "current_question ?r2 = Some q"
            "rooms' = AList.update roomId (reset_round e ?r2) rooms"
            "out = [(To roomId, ''questionStarted'', questionStarted_payload e (reset_round e ?r2) q)]"
            by (rule start_round_cases)
          with Some acc low False advanced[of r ?r2 q] show ?thesis by auto
        qed
      next
        case False
        with assms Some acc nr
        have "start_round e roomId ?r1 rooms = Inr (rooms', out)"
          by (auto simp: hostNext_def Let_def)
        then obtain q where "current_question ?r1 = Some q"
          "rooms' = AList.update roomId (reset_round e ?r1) rooms"
          "out = [(To roomId, ''questionStarted'', questionStarted_payload e (reset_round e ?r1) q)]"
          by (rule start_round_cases)
        with Some acc nr False advanced[of r ?r1 q] show ?thesis by auto
      qed
    qed
  qed
qed

subsection \<open>The invariants hold in every registry a run reaches, and no handler raises\<close>

lemma rooms_ok_Nil [simp]: "rooms_ok []"
  by (simp add: rooms_ok_def)

lemma rooms_ok_update: "rooms_ok rooms \<Longrightarrow> room_ok r \<Longrightarrow> rooms_ok (AList.update k r rooms)"
  unfolding rooms_ok_def using set_update_cases by fastforce

lemma rooms_ok_lookup: "rooms_ok rooms \<Longrightarrow> map_of rooms k = Some r \<Longrightarrow> room_ok r"
  unfolding rooms_ok_def by (force dest: map_of_SomeD)

lemma room_ok_current:
  "room_ok r \<Longrightarrow> state r = in_question \<or> state r = showing_answer \<Longrightarrow> \<exists>q. current_question r = Some q"
  by (simp add: room_ok_def current_question_def)

lemma room_ok_new: "qs \<noteq> [] \<Longrightarrow> room_ok (new_room roomId sid req qs u)"
  by (simp add: room_ok_def)

lemma room_ok_add_player: "room_ok r \<Longrightarrow> room_ok (add_player sid nm r)"
  by (auto simp: room_ok_def)

lemma room_ok_start: "room_ok r \<Longrightarrow> room_ok (reset_round e (r\<lparr> questionIndex := 0 \<rparr>))"
  by (auto simp: room_ok_def)

lemma room_ok_record_done:
  "room_ok r \<Longrightarrow> map_of (players r) sid \<noteq> None \<Longrightarrow> room_ok (record_done e sid ans r)"
  by (auto simp: room_ok_def map_of_eq_None_iff)

lemma room_ok_reveal: "room_ok r \<Longrightarrow> state r = in_question \<Longrightarrow> room_ok (r\<lparr> state := showing_answer \<rparr>)"
  by (auto simp: room_ok_def)

lemma room_ok_remove_player: "room_ok r \<Longrightarrow> room_ok (remove_player sid r)"
  by (auto simp: room_ok_def dom_delete)

lemma room_ok_finished: 
  "fset (doneSet r) \<subseteq> fst ` set (players r) \<Longrightarrow> questions r \<noteq> [] 
   \<Longrightarrow> (\<not> isUnlimited r \<longrightarrow> totalRounds r = Fixed (int (length (questions r))))
   \<Longrightarrow> room_ok (r\<lparr> state := finished \<rparr>)"
  by (auto simp: room_ok_def)

lemma room_ok_next:
  "room_ok r \<Longrightarrow> questionIndex r < length (questions r) \<Longrightarrow> room_ok (reset_round e r)"
  by (auto simp: room_ok_def)

lemma questions_replenish: "\<exists>new. questions (replenish B e r) = questions r @ new"
  by (simp add: replenish_def Let_def)

lemma createRoom_ok:
  assumes "rooms_ok rooms"
  shows "\<exists>rooms' out. createRoom B e sid req rooms = Inr (rooms', out) \<and> rooms_ok rooms'"
  using assms by (simp add: createRoom_result rooms_ok_update room_ok_new initial_questions_nonempty)

lemma getPublicRoomState_ok: "room_ok r \<Longrightarrow> \<exists>st. getPublicRoomState e r = Inr st"
  using room_ok_current[of r] by (auto simp: getPublicRoomState_def)

lemma joinRoom_ok:
  assumes "rooms_ok rooms"
  shows "\<exists>rooms' out. joinRoom e sid roomId nm rooms = Inr (rooms', out) \<and> rooms_ok rooms'"
proof (cases "map_of rooms roomId")
  case None
  with assms show ?thesis by (simp add: joinRoom_def)
next
  case (Some r)
  have ok: "room_ok (add_player sid nm r)"
    using rooms_ok_lookup[OF assms Some] by (rule room_ok_add_player)
  then obtain st where "getPublicRoomState e (add_player sid nm r) = Inr st"
    using getPublicRoomState_ok by blast
  with assms Some ok show ?thesis by (simp add: joinRoom_def Let_def rooms_ok_update)
qed

lemma start_round_ok:
  assumes "rooms_ok rooms" "room_ok (reset_round e r)"
  shows "\<exists>rooms' out. start_round e roomId r rooms = Inr (rooms', out) \<and> rooms_ok rooms'"
proof -
  obtain q where "current_question (reset_round e r) = Some q"
    using room_ok_current[OF assms(2)] by auto
  with assms show ?thesis by (simp add: start_round_def Let_def rooms_ok_update)
qed

lemma startGame_ok:
  assumes "rooms_ok rooms"
  shows "\<exists>rooms' out. startGame e sid roomId rooms = Inr (rooms', out) \<and> rooms_ok rooms'"
proof (cases "map_of rooms roomId")
  case None
  with assms show ?thesis by (simp add: startGame_def)
next
  case (Some r)
  have "room_ok (reset_round e (r\<lparr> questionIndex := 0 \<rparr>))"
    using rooms_ok_lookup[OF assms Some] by (rule room_ok_start)
  from start_round_ok[OF assms this] obtain rooms' out where
    "start_round e roomId (r\<lparr> questionIndex := 0 \<rparr>) rooms = Inr (rooms', out)" "rooms_ok rooms'"
    by blast
  then show ?thesis using assms Some by (cases "hostId r = sid") (auto simp: startGame_def)
qed

lemma playerDone_ok:
  assumes "rooms_ok rooms"
  shows "\<exists>rooms' out. playerDone e sid roomId ans rooms = Inr (rooms', out) \<and> rooms_ok rooms'"
proof (cases "map_of rooms roomId")
  case None
  with assms show ?thesis by (simp add: playerDone_def)
next
  case (Some r)
  have ok: "room_ok r" using rooms_ok_lookup[OF assms Some] .
  show ?thesis
  proof (cases "state r \<noteq> in_question \<or> map_of (players r) sid = None \<or> sid |\<in>| doneSet r")
    case True
    with assms Some show ?thesis by (auto simp: playerDone_def)
  next
    case False
    have ok1: "room_ok (record_done e sid ans r)" using ok False by (simp add: room_ok_record_done)
    then have ok2: "room_ok ((record_done e sid ans r)\<lparr> state := showing_answer \<rparr>)"
      using False by (simp add: room_ok_reveal)
    obtain q where "current_question r = Some q" using room_ok_current[OF ok] False by auto
    with assms Some False ok1 ok2 show ?thesis
      by (simp add: playerDone_def Let_def rooms_ok_update)
  qed
qed

lemma hostRevealAnswer_ok:
  assumes "rooms_ok rooms"
  shows "\<exists>rooms' out. hostRevealAnswer e sid roomId rooms = Inr (rooms', out) \<and> rooms_ok rooms'"
proof (cases "map_of rooms roomId")
  case None
  with assms show ?thesis by (simp add: hostRevealAnswer_def)
next
  case (Some r)
  have ok: "room_ok r" using rooms_ok_lookup[OF assms Some] .
  show ?thesis
  proof (cases "hostId r \<noteq> sid \<or> state r \<noteq> in_question \<or> length (players r) > 0")
    case True
    with assms Some show ?thesis by (auto simp: hostRevealAnswer_def)
  next
    case False
    have ok2: "room_ok (r\<lparr> state := showing_answer \<rparr>)" using ok False by (simp add: room_ok_reveal)
    obtain q where "current_question r = Some q" using room_ok_current[OF ok] False by auto
    with assms Some False ok2 show ?thesis
      by (simp add: hostRevealAnswer_def Let_def rooms_ok_update)
  qed
qed

lemma hostNext_ok:
  assumes "rooms_ok rooms"
  shows "\<exists>rooms' out. hostNext B e sid roomId rooms = Inr (rooms', out) \<and> rooms_ok rooms'"
proof (cases "map_of rooms roomId")
  case None
  with assms show ?thesis by (simp add: hostNext_def)
next
  case (Some r)
  have ok: "room_ok r" using rooms_ok_lookup[OF assms Some] .
  let ?r1 = "r\<lparr> questionIndex := questionIndex r + 1 \<rparr>"
  let ?r2 = "replenish B e ?r1"
  obtain new where new: "questions ?r2 = questions r @ new"
    using questions_replenish[of B e ?r1] by auto
  show ?thesis
  proof (cases "hostId r \<noteq> sid \<or> state r \<noteq> showing_answer")
    case True
    with assms Some show ?thesis by (auto simp: hostNext_def)
  next
    case acc: False
    show ?thesis
    proof (cases "\<not> isUnlimited r \<and> reached (questionIndex r + 1) (totalRounds r)")
      case True
      have "room_ok (?r1\<lparr> state := finished \<rparr>)" using ok by (intro room_ok_finished) (auto simp: room_ok_def)
      with assms Some acc True show ?thesis
        by (simp add: hostNext_def Let_def game_over_def rooms_ok_update)
    next
      case nr: False
      show ?thesis
      proof (cases "isUnlimited r \<and> int (length (questions r)) - int (questionIndex r + 1) \<le> 2")
        case low: True
        show ?thesis
        proof (cases "length (questions ?r2) \<le> questionIndex r + 1")
          case True
          have "room_ok (?r2\<lparr> state := finished \<rparr>)"
            using ok low new by (intro room_ok_finished) (auto simp: room_ok_def)
          with assms Some acc nr low True show ?thesis
            by (simp add: hostNext_def Let_def game_over_def rooms_ok_update)
        next
          case False
          have "room_ok (reset_round e ?r2)" using ok low new False by (auto simp: room_ok_def)
          from start_round_ok[OF assms this] obtain rooms' out where
            "start_round e roomId ?r2 rooms = Inr (rooms', out)" "rooms_ok rooms'" by blast
          moreover have "hostNext B e sid roomId rooms = start_round e roomId ?r2 rooms"
            using Some acc nr low False by (auto simp: hostNext_def Let_def)
          ultimately show ?thesis by simp
        qed
      next
        case False
        have "questionIndex r + 1 < length (questions r)"
        proof (cases "isUnlimited r")
          case True
          with False show ?thesis by simp
        next
          case fixed: False
          with ok have "totalRounds r = Fixed (int (length (questions r)))" by (simp add: room_ok_def)
          with nr fixed show ?thesis by (simp add: reached_def)
        qed
        then have "room_ok (reset_round e ?r1)" using ok by (auto simp: room_ok_def)
        from start_round_ok[OF assms this] obtain rooms' out where
          "start_round e roomId ?r1 rooms = Inr (rooms', out)" "rooms_ok rooms'" by blast
        moreover have "hostNext B e sid roomId rooms = start_round e roomId ?r1 rooms"
          using Some acc nr False by (auto simp: hostNext_def Let_def)
        ultimately show ?thesis by simp
      qed
    qed
  qed
qed

lemma disconnect_ok:
  assumes "rooms_ok rooms"
  shows "rooms_ok (fst (disconnect sid rooms))"
  using assms
proof (induction rooms)
  case Nil
  then show ?case by simp
next
  case (Cons a rooms)
  obtain roomId r where a: "a = (roomId, r)" by (cases a)
  have tl: "rooms_ok rooms" and hd: "room_ok r" using Cons.prems a by (auto simp: rooms_ok_def)
  have rest_ok: "rooms_ok (fst (disconnect sid rooms))" using Cons.IH[OF tl] .
  show ?case using a rest_ok hd room_ok_remove_player[OF hd, of sid]
    by (auto simp: rooms_ok_def Let_def split: prod.splits)
qed

lemma handle_ok:
  assumes "rooms_ok rooms"
  shows "\<exists>rooms' out. handle B e sid ev rooms = Inr (rooms', out) \<and> rooms_ok rooms'"
proof (cases ev)
  case Disconnect
  obtain rooms' out where d: "disconnect sid rooms = (rooms', out)" by (cases "disconnect sid rooms")
  with disconnect_ok[OF assms, of sid] Disconnect show ?thesis by (simp add: handle_def)
next
  case (CreateRoom req)
  with createRoom_ok[OF assms, of B e sid req] show ?thesis by (simp add: handle_def)
next
  case (JoinRoom roomId nm)
  with joinRoom_ok[OF assms, of e sid roomId nm] show ?thesis by (simp add: handle_def)
next
  case (StartGame roomId)
  with startGame_ok[OF assms, of e sid roomId] show ?thesis by (simp add: handle_def)
next
  case (PlayerDone roomId ans)
  with playerDone_ok[OF assms, of e sid roomId ans] show ?thesis by (simp add: handle_def)
next
  case (HostRevealAnswer roomId)
  with hostRevealAnswer_ok[OF assms, of e sid roomId] show ?thesis by (simp add: handle_def)
next
  case (HostNext roomId)
  with hostNext_ok[OF assms, of B e sid roomId] show ?thesis by (simp add: handle_def)
qed

lemma run_ok:
  "rooms_ok rooms \<Longrightarrow> \<exists>rooms' out. run B evs rooms = Inr (rooms', out) \<and> rooms_ok rooms'"
proof (induction evs arbitrary: rooms)
  case Nil
  then show ?case by simp
next
  case (Cons a evs)
  obtain e sid ev where a: "a = (e, sid, ev)" by (cases a)
  obtain rooms1 out1 where h: "handle B e sid ev rooms = Inr (rooms1, out1)" "rooms_ok rooms1"
    using handle_ok[OF Cons.prems] by blast
  obtain rooms2 out2 where r: "run B evs rooms1 = Inr (rooms2, out2)" "rooms_ok rooms2"
    using Cons.IH[OF h(2)] by blast
  show ?case using a h r by simp
qed

lemma run_append:
  "run B (evs1 @ evs2) rooms =
     (case run B evs1 rooms of
        Inl err \<Rightarrow> Inl err
      | Inr (rooms1, out1) \<Rightarrow>
          (case run B evs2 rooms1 of
             Inl err \<Rightarrow> Inl err
           | Inr (rooms2, out2) \<Rightarrow> Inr (rooms2, out1 @ out2)))"
  by (induction evs1 arbitrary: rooms) (auto split: sum.splits prod.splits)

subsection \<open>What one handler call does to one room\<close>

lemma msgs_Nil [simp]: "msgs roomId nm [] = []"
  by (simp add: msgs_def)

lemma msgs_append [simp]: "msgs roomId nm (xs @ ys) = msgs roomId nm xs @ msgs roomId nm ys"
  by (simp add: msgs_def)

lemma msgs_single:
  "msgs roomId nm [(t, n, p)] = (if t = To roomId \<and> n = nm then [(t, n, p)] else [])"
  by (simp add: msgs_def)

lemma msgs_Cons:
  "msgs roomId nm ((t, n, p) # out) = (if t = To roomId \<and> n = nm then [(t, n, p)] else []) @ msgs roomId nm out"
  by (simp add: msgs_def)

lemma quiet_Nil [simp]: "quiet roomId []"
  by (simp add: quiet_def)

lemma quiet_disconnect_msgs:
  "disconnect sid rooms = (rooms', out) \<Longrightarrow> quiet roomId out"
proof (induction rooms arbitrary: rooms' out)
  case Nil
  then show ?case by simp
next
  case (Cons a rooms)
  obtain k r where a: "a = (k, r)" by (cases a)
  obtain rest' out1 where rest: "disconnect sid rooms = (rest', out1)" by (cases "disconnect sid rooms")
  have q: "quiet roomId out1" using Cons.IH[OF rest] .
  show ?case using Cons.prems a rest q
    by (auto simp: quiet_def msgs_Cons Let_def split: if_splits)
qed

lemma map_of_disconnect:
  assumes "map_of rooms roomId = Some r" "hostId r \<noteq> sid"
  shows "map_of (fst (disconnect sid rooms)) roomId
         = Some (if map_of (players r) sid \<noteq> None then remove_player sid r else r)"
  using assms
proof (induction rooms)
  case Nil
  then show ?case by simp
next
  case (Cons a rooms)
  obtain k r0 where a: "a = (k, r0)" by (cases a)
  show ?case
  proof (cases "k = roomId")
    case True
    with Cons.prems a have "r0 = r" by simp
    with True a Cons.prems(2) show ?thesis by (auto simp: Let_def split: prod.splits)
  next
    case False
    with Cons.prems a have "map_of rooms roomId = Some r" by simp
    from Cons.IH[OF this Cons.prems(2)] False a show ?thesis
      by (auto simp: Let_def split: prod.splits)
  qed
qed

lemma quiet_one:
  "quiet roomId [(t, n, p)] \<longleftrightarrow>
     \<not> (t = To roomId \<and> (n = ''questionStarted'' \<or> n = ''showAnswer'' \<or> n = ''gameOver''))"
  by (auto simp: quiet_def msgs_single)

lemma quiet_two:
  "quiet roomId [m1, m2] \<longleftrightarrow> quiet roomId [m1] \<and> quiet roomId [m2]"
  by (auto simp: quiet_def msgs_def)

text \<open>One handler call, seen from the room \<open>roomId\<close>: it leaves the state, the cursor and
  the queue alone and broadcasts none of the three messages of a round, or it is one of
  the four transitions of the state machine.\<close>

lemma handle_target:
  assumes h: "handle B e sid ev rooms = Inr (rooms', out)"
    and r: "map_of rooms roomId = Some r"
    and nc: "\<forall>req. ev = CreateRoom req \<longrightarrow> createRoomId e \<noteq> roomId"
    and nd: "ev = Disconnect \<longrightarrow> sid \<noteq> hostId r"
  obtains
    (same) r' where "map_of rooms' roomId = Some r'" "hostId r' = hostId r"
      "isUnlimited r' = isUnlimited r" "totalRounds r' = totalRounds r"
      "state r' = state r" "questionIndex r' = questionIndex r" "questions r' = questions r"
      "quiet roomId out" "\<not> reveals roomId r sid ev"
      "ev \<noteq> StartGame roomId \<or> sid \<noteq> hostId r"
      "ev \<noteq> HostNext roomId \<or> sid \<noteq> hostId r \<or> state r \<noteq> showing_answer"
  | (start) r' p where "map_of rooms' roomId = Some r'" "hostId r' = hostId r"
      "isUnlimited r' = isUnlimited r" "totalRounds r' = totalRounds r"
      "ev = StartGame roomId" "sid = hostId r"
      "state r' = in_question" "questionIndex r' = 0" "questions r' = questions r"
      "out = [(To roomId, ''questionStarted'', p)]"
  | (reveal) r' p where "map_of rooms' roomId = Some r'" "hostId r' = hostId r"
      "isUnlimited r' = isUnlimited r" "totalRounds r' = totalRounds r"
      "reveals roomId r sid ev"
      "state r' = showing_answer" "questionIndex r' = questionIndex r" "questions r' = questions r"
      "out = [(To roomId, ''showAnswer'', p)]"
  | (advance) r' p where "map_of rooms' roomId = Some r'" "hostId r' = hostId r"
      "isUnlimited r' = isUnlimited r" "totalRounds r' = totalRounds r"
      "ev = HostNext roomId" "sid = hostId r" "state r = showing_answer"
      "state r' = in_question" "questionIndex r' = questionIndex r + 1"
      "\<not> isUnlimited r \<Longrightarrow> questions r' = questions r \<and> \<not> reached (questionIndex r + 1) (totalRounds r)"
      "out = [(To roomId, ''questionStarted'', p)]"
  | (finish) r' t where "map_of rooms' roomId = Some r'" "hostId r' = hostId r"
      "isUnlimited r' = isUnlimited r" "totalRounds r' = totalRounds r"
      "ev = HostNext roomId" "sid = hostId r" "state r = showing_answer"
      "state r' = finished" "questionIndex r' = questionIndex r + 1"
      "\<not> isUnlimited r \<Longrightarrow> questions r' = questions r \<and> reached (questionIndex r + 1) (totalRounds r)
                             \<and> t = total_json (totalRounds r)"
      "out = [(To roomId, ''gameOver'', JObj [(''totalRounds'', t)])]"
proof (cases ev)
  case (CreateRoom req)
  with h have "rooms' = AList.update (createRoomId e)
            (new_room (createRoomId e) sid req (initial_questions B e req) (parsed_rounds req = - 1)) rooms"
    and "\<exists>p. out = [(Reply, ''roomCreated'', p)]"
    by (auto simp: handle_def createRoom_result)
  with r nc CreateRoom show ?thesis
    by (intro same[of r]) (auto simp: quiet_one reveals_def)
next
  case (JoinRoom k nm)
  with h have j: "joinRoom e sid k nm rooms = Inr (rooms', out)" by (simp add: handle_def)
  from j show ?thesis
  proof (cases rule: joinRoom_cases)
    case missing
    with r JoinRoom show ?thesis by (intro same[of r]) (auto simp: quiet_one reveals_def)
  next
    case (host r0)
    with r JoinRoom show ?thesis by (intro same[of r]) (auto simp: quiet_one reveals_def)
  next
    case (joined r0 st)
    show ?thesis
    proof (cases "k = roomId")
      case True
      with joined r have "r0 = r" by simp
      with joined True JoinRoom show ?thesis
        by (intro same[of "add_player sid nm r"]) (auto simp: quiet_one quiet_two reveals_def)
    next
      case False
      with joined r JoinRoom show ?thesis
        by (intro same[of r]) (auto simp: quiet_one quiet_two reveals_def)
    qed
  qed
next
  case (StartGame k)
  with h have s: "startGame e sid k rooms = Inr (rooms', out)" by (simp add: handle_def)
  from s show ?thesis
  proof (cases rule: startGame_cases)
    case ignored
    with r StartGame show ?thesis by (intro same[of r]) (auto simp: reveals_def)
  next
    case (started r0 q)
    show ?thesis
    proof (cases "k = roomId")
      case True
      with started r have "r0 = r" by simp
      with started True StartGame show ?thesis
        by (intro start[of "reset_round e (r\<lparr> questionIndex := 0 \<rparr>)"]) auto
    next
      case False
      with started r StartGame show ?thesis
        by (intro same[of r]) (auto simp: quiet_one reveals_def)
    qed
  qed
next
  case (PlayerDone k ans)
  with h have s: "playerDone e sid k ans rooms = Inr (rooms', out)" by (simp add: handle_def)
  from s show ?thesis
  proof (cases rule: playerDone_cases)
    case ignored
    with r PlayerDone show ?thesis by (intro same[of r]) (auto simp: reveals_def)
  next
    case (recorded r0)
    show ?thesis
    proof (cases "k = roomId")
      case True
      with recorded r have "r0 = r" by simp
      with recorded True PlayerDone show ?thesis
        by (intro same[of "record_done e sid ans r"]) (auto simp: reveals_def)
    next
      case False
      with recorded r PlayerDone show ?thesis
        by (intro same[of r]) (auto simp: reveals_def)
    qed
  next
    case (revealed r0 q)
    show ?thesis
    proof (cases "k = roomId")
      case True
      with revealed r have "r0 = r" by simp
      with revealed True PlayerDone show ?thesis
        by (intro reveal[of "(record_done e sid ans r)\<lparr> state := showing_answer \<rparr>"])
           (auto simp: reveals_def)
    next
      case False
      with revealed r PlayerDone show ?thesis
        by (intro same[of r]) (auto simp: quiet_one reveals_def)
    qed
  qed
next
  case (HostRevealAnswer k)
  with h have s: "hostRevealAnswer e sid k rooms = Inr (rooms', out)" by (simp add: handle_def)
  from s show ?thesis
  proof (cases rule: hostRevealAnswer_cases)
    case ignored
    with r HostRevealAnswer show ?thesis by (intro same[of r]) (auto simp: reveals_def)
  next
    case (revealed r0 q)
    show ?thesis
    proof (cases "k = roomId")
      case True
      with revealed r have "r0 = r" by simp
      with revealed True HostRevealAnswer show ?thesis
        by (intro reveal[of "r\<lparr> state := showing_answer \<rparr>"]) (auto simp: reveals_def)
    next
      case False
      with revealed r HostRevealAnswer show ?thesis
        by (intro same[of r]) (auto simp: quiet_one reveals_def)
    qed
  qed
next
  case (HostNext k)
  with h have s: "hostNext B e sid k rooms = Inr (rooms', out)" by (simp add: handle_def)
  from s show ?thesis
  proof (cases rule: hostNext_cases)
    case ignored
    with r HostNext show ?thesis by (intro same[of r]) (auto simp: reveals_def)
  next
    case (over r0 r1 t)
    show ?thesis
    proof (cases "k = roomId")
      case True
      with over r have "r0 = r" by simp
      with over True HostNext show ?thesis
        by (intro finish[of "r1\<lparr> state := finished \<rparr>" t]) auto
    next
      case False
      with over r HostNext show ?thesis
        by (intro same[of r]) (auto simp: quiet_one reveals_def)
    qed
  next
    case (advanced r0 r1 q)
    show ?thesis
    proof (cases "k = roomId")
      case True
      with advanced r have "r0 = r" by simp
      with advanced True HostNext show ?thesis
        by (intro advance[of "reset_round e r1"]) auto
    next
      case False
      with advanced r HostNext show ?thesis
        by (intro same[of r]) (auto simp: quiet_one reveals_def)
    qed
  qed
next
  case Disconnect
  with h have d: "disconnect sid rooms = (rooms', out)" by (simp add: handle_def)
  have m: "map_of rooms' roomId = Some (if map_of (players r) sid \<noteq> None then remove_player sid r else r)"
    using map_of_disconnect[OF r, of sid] nd Disconnect d by auto
  have q: "quiet roomId out" using d by (rule quiet_disconnect_msgs)
  show ?thesis using m q Disconnect
    by (intro same[of "if map_of (players r) sid \<noteq> None then remove_player sid r else r"])
       (auto simp: reveals_def)
qed

subsection \<open>The property names of the payloads\<close>

lemma secret_public:
  assumes "secret k"
  shows "k \<notin> {''questionIndex'', ''totalRounds'', ''question'', ''type'', ''options'', ''diagramUrl'',
              ''imageSearchQuery'', ''source'', ''startTime'', ''state'', ''players'', ''currentQuestion'',
              ''roomId'', ''joinUrl'', ''hostName'', ''playerName'', ''id'', ''name'', ''url'', ''icon''}"
  using assms by (auto simp: secret_def)

lemma mentions_trusted: "mentions k (trusted n u i) \<longleftrightarrow> k \<in> {''name'', ''url'', ''icon''} \<or> mentions k u"
  by (auto simp: trusted_def)

lemma trusted_values:
  "v \<in> snd ` set TRUSTED_SOURCES \<Longrightarrow> \<exists>n u i. v = trusted n u i \<and> (u = JNull \<or> (\<exists>x. u = JStr x))"
  unfolding TRUSTED_SOURCES_def by (simp add: image_iff) blast

lemma no_secret_source: "secret k \<Longrightarrow> \<not> mentions k (source_json q)"
proof (cases "map_of TRUSTED_SOURCES (source q)")
  case None
  assume "secret k"
  with None secret_public[of k] show ?thesis by (auto simp: source_json_def)
next
  case (Some v)
  assume s: "secret k"
  from Some have "v \<in> snd ` set TRUSTED_SOURCES" by (force dest: map_of_SomeD)
  then obtain n u i where "v = trusted n u i" "u = JNull \<or> (\<exists>x. u = JStr x)"
    using trusted_values by blast
  with s Some secret_public[of k] show ?thesis by (auto simp: source_json_def mentions_trusted)
qed

lemma no_key_diagram [simp]: "\<not> mentions k (getDiagramUrl e d)"
  by (simp add: getDiagramUrl_def Let_def split: option.splits)

lemma no_key_options [simp]: "\<not> mentions k (options_json q)"
  by (simp add: options_json_def list_ex_iff split: option.splits)

lemma no_key_image [simp]: "\<not> mentions k (imageSearchQuery_json q)"
  by (simp add: imageSearchQuery_json_def split: option.splits)

lemma no_key_total [simp]: "\<not> mentions k (total_json t)"
  by (simp add: total_json_def split: total.splits)

lemma no_key_startTime [simp]: "\<not> mentions k (startTime_json r)"
  by (simp add: startTime_json_def split: option.splits)

lemma no_key_state [simp]: "\<not> mentions k (state_json st)"
  by (simp add: state_json_def)

lemma no_secret_players: "secret k \<Longrightarrow> \<not> mentions k (players_json r)"
  using secret_public[of k] by (auto simp: players_json_def list_ex_iff)

lemma no_secret_questionStarted: "secret k \<Longrightarrow> \<not> mentions k (questionStarted_payload e r q)"
  using no_secret_source[of k q] secret_public[of k] by (auto simp: questionStarted_payload_def)

lemma no_secret_public_state:
  assumes "getPublicRoomState e r = Inr st" "secret k"
  shows "\<not> mentions k st"
proof (cases "state r = in_question \<or> state r = showing_answer")
  case True
  with assms(1) obtain q where "current_question r = Some q"
    by (auto simp: getPublicRoomState_def split: option.splits)
  with True assms no_secret_source[of k q] no_secret_players[of k r] secret_public[of k]
  show ?thesis by (auto simp: getPublicRoomState_def)
next
  case False
  with assms no_secret_players[of k r] secret_public[of k]
  show ?thesis by (auto simp: getPublicRoomState_def)
qed

lemma secret_showAnswer: "secret k \<Longrightarrow> mentions k (showAnswer_payload e r q t a)"
  by (auto simp: showAnswer_payload_def secret_def)

lemma disconnect_public:
  "disconnect sid rooms = (rooms', out) \<Longrightarrow> (t, nm, p) \<in> set out \<Longrightarrow> secret k
     \<Longrightarrow> nm \<noteq> ''showAnswer'' \<and> \<not> mentions k p"
proof (induction rooms arbitrary: rooms' out)
  case Nil
  then show ?case by simp
next
  case (Cons a rooms)
  obtain rid0 r where a: "a = (rid0, r)" by (cases a)
  obtain rest' out1 where rest: "disconnect sid rooms = (rest', out1)" by (cases "disconnect sid rooms")
  have ih: "(t, nm, p) \<in> set out1 \<Longrightarrow> nm \<noteq> ''showAnswer'' \<and> \<not> mentions k p"
    using Cons.IH[OF rest _ Cons.prems(3)] by blast
  have pl: "\<not> mentions k (JObj [(''players'', players_json (remove_player sid r))])"
    using no_secret_players[OF Cons.prems(3), of "remove_player sid r"] secret_public[OF Cons.prems(3)]
    by auto
  have "(t, nm, p) \<in> set out1
        \<or> (t, nm, p) = (To rid0, ''errorMessage'', JStr ''Host disconnected.'')
        \<or> (t, nm, p) = (To (hostId r), ''playerListUpdate'', JObj [(''players'', players_json (remove_player sid r))])"
    using Cons.prems(1,2) a rest by (auto simp: Let_def split: if_splits)
  with ih pl show ?case by auto
qed

lemma handle_public:
  assumes "handle B e sid ev rooms = Inr (rooms', out)" "(t, nm, p) \<in> set out" "secret k"
  shows "(nm = ''showAnswer'' \<longrightarrow> mentions k p) \<and> (nm \<noteq> ''showAnswer'' \<longrightarrow> \<not> mentions k p)"
proof (cases ev)
  case (CreateRoom req)
  with assms(1,2) have "nm = ''roomCreated''"
    and "\<exists>u. (u = JNull \<or> (\<exists>x. u = JStr x)) \<and>
          p = JObj [(''roomId'', JStr (createRoomId e)), (''joinUrl'', u),
                    (''totalRounds'', JNum (int (length (initial_questions B e req)))),
                    (''hostName'', JStr (host_name req))]"
    by (auto simp: handle_def createRoom_result split: option.splits)
  with secret_public[OF assms(3)] show ?thesis by auto
next
  case (JoinRoom rm nm0)
  with assms(1) have "joinRoom e sid rm nm0 rooms = Inr (rooms', out)" by (simp add: handle_def)
  then show ?thesis
  proof (cases rule: joinRoom_cases)
    case missing
    with assms(2) show ?thesis by auto
  next
    case (host r)
    with assms(2) show ?thesis by auto
  next
    case (joined r st)
    have a: "\<not> mentions k (JObj [(''players'', players_json (add_player sid nm0 r))])"
      using no_secret_players[OF assms(3), of "add_player sid nm0 r"] secret_public[OF assms(3)] by auto
    have "\<exists>u. (u = JUndef \<or> (\<exists>x. u = JStr x)) \<and>
            (case map_of (players (add_player sid nm0 r)) sid of None \<Rightarrow> JUndef | Some p \<Rightarrow> JStr (name p)) = u"
      by (auto split: option.splits)
    then obtain u where u: "u = JUndef \<or> (\<exists>x. u = JStr x)"
      "(case map_of (players (add_player sid nm0 r)) sid of None \<Rightarrow> JUndef | Some p \<Rightarrow> JStr (name p)) = u"
      by blast
    have b: "\<not> mentions k (JObj [(''roomId'', JStr rm), (''playerName'', u), (''state'', st)])"
      using no_secret_public_state[OF joined(3) assms(3)] secret_public[OF assms(3)] u(1) by auto
    from joined(5) assms(2) u(2) have
      "(nm, p) = (''playerListUpdate'', JObj [(''players'', players_json (add_player sid nm0 r))])
       \<or> (nm, p) = (''joinedRoom'', JObj [(''roomId'', JStr rm), (''playerName'', u), (''state'', st)])"
      by auto
    with a b show ?thesis by auto
  qed
next
  case (StartGame rm)
  with assms(1) have "startGame e sid rm rooms = Inr (rooms', out)" by (simp add: handle_def)
  then show ?thesis
  proof (cases rule: startGame_cases)
    case ignored
    with assms(2) show ?thesis by simp
  next
    case (started r q)
    with assms(2) no_secret_questionStarted[OF assms(3)] show ?thesis by auto
  qed
next
  case (PlayerDone rm ans)
  with assms(1) have "playerDone e sid rm ans rooms = Inr (rooms', out)" by (simp add: handle_def)
  then show ?thesis
  proof (cases rule: playerDone_cases)
    case ignored
    with assms(2) show ?thesis by simp
  next
    case (recorded r)
    with assms(2) show ?thesis by simp
  next
    case (revealed r q)
    with assms(2) secret_showAnswer[OF assms(3)] show ?thesis by auto
  qed
next
  case (HostRevealAnswer rm)
  with assms(1) have "hostRevealAnswer e sid rm rooms = Inr (rooms', out)" by (simp add: handle_def)
  then show ?thesis
  proof (cases rule: hostRevealAnswer_cases)
    case ignored
    with assms(2) show ?thesis by simp
  next
    case (revealed r q)
    with assms(2) secret_showAnswer[OF assms(3)] show ?thesis by auto
  qed
next
  case (HostNext rm)
  with assms(1) have "hostNext B e sid rm rooms = Inr (rooms', out)" by (simp add: handle_def)
  then show ?thesis
  proof (cases rule: hostNext_cases)
    case ignored
    with assms(2) show ?thesis by simp
  next
    case (over r r1 t0)
    then have "\<not> mentions k t0" by auto
    with over(6) assms(2) secret_public[OF assms(3)] show ?thesis by auto
  next
    case (advanced r r1 q)
    with assms(2) no_secret_questionStarted[OF assms(3)] show ?thesis by auto
  qed
next
  case Disconnect
  with assms(1) have "disconnect sid rooms = (rooms', out)" by (simp add: handle_def)
  from disconnect_public[OF this assms(2,3)] show ?thesis by simp
qed

subsection \<open>Rounds and runs of one room\<close>

lemma msgs_one_same [simp]: "msgs roomId nm [(To roomId, nm, p)] = [(To roomId, nm, p)]"
  by (simp add: msgs_def)

lemma msgs_one_other [simp]: "nm' \<noteq> nm \<Longrightarrow> msgs roomId nm [(t, nm', p)] = []"
  by (simp add: msgs_def)

lemma run_Cons_Inr:
  assumes "handle B e sid ev rooms = Inr (rooms1, out1)" "run B evs rooms1 = Inr (rooms2, out2)"
  shows "run B ((e, sid, ev) # evs) rooms = Inr (rooms2, out1 @ out2)"
  using assms by simp

text \<open>The number of \<^verbatim>\<open>showAnswer\<close> broadcasts of one handler call.\<close>

lemma showAnswer_step:
  assumes h: "handle B e sid ev rooms = Inr (rooms', out)" and r: "map_of rooms roomId = Some r"
  shows "length (msgs roomId ''showAnswer'' out) = (if reveals roomId r sid ev then 1 else 0)
         \<and> (reveals roomId r sid ev \<longrightarrow> (\<exists>r'. map_of rooms' roomId = Some r' \<and> state r' = showing_answer))"
proof (cases "(\<exists>req. ev = CreateRoom req \<and> createRoomId e = roomId) \<or> (ev = Disconnect \<and> sid = hostId r)")
  case True
  then show ?thesis
  proof
    assume "\<exists>req. ev = CreateRoom req \<and> createRoomId e = roomId"
    then obtain req where "ev = CreateRoom req" by blast
    with h show ?thesis by (auto simp: handle_def createRoom_result reveals_def)
  next
    assume d: "ev = Disconnect \<and> sid = hostId r"
    with h have "disconnect sid rooms = (rooms', out)" by (simp add: handle_def)
    then have "quiet roomId out" by (rule quiet_disconnect_msgs)
    with d show ?thesis by (simp add: quiet_def reveals_def)
  qed
next
  case False
  then have nc: "\<forall>req. ev = CreateRoom req \<longrightarrow> createRoomId e \<noteq> roomId"
    and nd: "ev = Disconnect \<longrightarrow> sid \<noteq> hostId r" by auto
  from h r nc nd show ?thesis
  proof (cases rule: handle_target)
    case (same r')
    then show ?thesis by (simp add: quiet_def)
  next
    case (start r' p)
    then show ?thesis by (simp add: reveals_def)
  next
    case (reveal r' p)
    then show ?thesis by simp
  next
    case (advance r' p)
    then show ?thesis by (simp add: reveals_def)
  next
    case (finish r' t)
    then show ?thesis by (simp add: reveals_def)
  qed
qed

lemma in_round_Cons:
  assumes "\<forall>x\<in>set ((e, sid, ev) # evs). in_round roomId h x"
  shows "\<forall>req. ev = CreateRoom req \<longrightarrow> createRoomId e \<noteq> roomId"
    and "ev = Disconnect \<longrightarrow> sid \<noteq> h"
    and "ev = StartGame roomId \<longrightarrow> sid \<noteq> h"
    and "ev = HostNext roomId \<longrightarrow> sid \<noteq> h"
    and "\<forall>x\<in>set evs. in_round roomId h x"
  using assms by (auto simp: in_round_def)

text \<open>Once the answer is shown, nothing inside the round shows it again.\<close>

lemma round_after_reveal:
  assumes "rooms_ok rooms" "map_of rooms roomId = Some r" "state r = showing_answer"
    "\<forall>x\<in>set evs. in_round roomId (hostId r) x"
  shows "\<exists>rooms' out r'. run B evs rooms = Inr (rooms', out) \<and> map_of rooms' roomId = Some r'
           \<and> state r' = showing_answer \<and> msgs roomId ''showAnswer'' out = []"
  using assms
proof (induction evs arbitrary: rooms r)
  case Nil
  then show ?case by simp
next
  case (Cons a evs)
  obtain e sid ev where a: "a = (e, sid, ev)" by (cases a)
  note ir = in_round_Cons[OF Cons.prems(4)[unfolded a]]
  obtain rooms1 out1 where h: "handle B e sid ev rooms = Inr (rooms1, out1)" and ok1: "rooms_ok rooms1"
    using handle_ok[OF Cons.prems(1)] by blast
  from h Cons.prems(2) ir(1,2)
  obtain r1 where r1: "map_of rooms1 roomId = Some r1" "hostId r1 = hostId r"
    "state r1 = showing_answer" "msgs roomId ''showAnswer'' out1 = []"
  proof (cases rule: handle_target)
    case (same r')
    with Cons.prems(3) that show ?thesis by (simp add: quiet_def)
  next
    case (start r' p)
    with ir(3) show ?thesis by simp
  next
    case (reveal r' p)
    with Cons.prems(3) show ?thesis by (simp add: reveals_def)
  next
    case (advance r' p)
    with ir(4) show ?thesis by simp
  next
    case (finish r' t)
    with ir(4) show ?thesis by simp
  qed
  have "\<forall>x\<in>set evs. in_round roomId (hostId r1) x" using ir(5) r1(2) by simp
  from Cons.IH[OF ok1 r1(1) r1(3) this]
  obtain rooms2 out2 r2 where "run B evs rooms1 = Inr (rooms2, out2)" "map_of rooms2 roomId = Some r2"
    "state r2 = showing_answer" "msgs roomId ''showAnswer'' out2 = []" by blast
  with h r1(4) a show ?case by simp
qed

text \<open>Inside a round the answer is shown at most once, and it has been shown exactly
  when the room is in state \<open>showing_answer\<close>.\<close>

lemma round_run:
  assumes "rooms_ok rooms" "map_of rooms roomId = Some r" "state r = in_question"
    "\<forall>x\<in>set evs. in_round roomId (hostId r) x"
  shows "\<exists>rooms' out r'. run B evs rooms = Inr (rooms', out) \<and> map_of rooms' roomId = Some r'
           \<and> (state r' = in_question \<and> msgs roomId ''showAnswer'' out = []
              \<or> state r' = showing_answer \<and> length (msgs roomId ''showAnswer'' out) = 1)"
  using assms
proof (induction evs arbitrary: rooms r)
  case Nil
  then show ?case by simp
next
  case (Cons a evs)
  obtain e sid ev where a: "a = (e, sid, ev)" by (cases a)
  note ir = in_round_Cons[OF Cons.prems(4)[unfolded a]]
  obtain rooms1 out1 where h: "handle B e sid ev rooms = Inr (rooms1, out1)" and ok1: "rooms_ok rooms1"
    using handle_ok[OF Cons.prems(1)] by blast
  from h Cons.prems(2) ir(1,2)
  consider (quiet) r1 where "map_of rooms1 roomId = Some r1" "hostId r1 = hostId r"
      "state r1 = in_question" "msgs roomId ''showAnswer'' out1 = []"
    | (shown) r1 where "map_of rooms1 roomId = Some r1" "hostId r1 = hostId r"
      "state r1 = showing_answer" "length (msgs roomId ''showAnswer'' out1) = 1"
  proof (cases rule: handle_target)
    case (same r')
    with Cons.prems(3) quiet show ?thesis by (simp add: quiet_def)
  next
    case (start r' p)
    with ir(3) show ?thesis by simp
  next
    case (reveal r' p)
    with shown show ?thesis by simp
  next
    case (advance r' p)
    with ir(4) show ?thesis by simp
  next
    case (finish r' t)
    with ir(4) show ?thesis by simp
  qed
  then show ?case
  proof cases
    case (quiet r1)
    have "\<forall>x\<in>set evs. in_round roomId (hostId r1) x" using ir(5) quiet(2) by simp
    from Cons.IH[OF ok1 quiet(1) quiet(3) this]
    obtain rooms2 out2 r2 where "run B evs rooms1 = Inr (rooms2, out2)" "map_of rooms2 roomId = Some r2"
      "state r2 = in_question \<and> msgs roomId ''showAnswer'' out2 = []
       \<or> state r2 = showing_answer \<and> length (msgs roomId ''showAnswer'' out2) = 1" by blast
    with h quiet(4) a show ?thesis by auto
  next
    case (shown r1)
    have "\<forall>x\<in>set evs. in_round roomId (hostId r1) x" using ir(5) shown(2) by simp
    from round_after_reveal[OF ok1 shown(1) shown(3) this]
    obtain rooms2 out2 r2 where "run B evs rooms1 = Inr (rooms2, out2)" "map_of rooms2 roomId = Some r2"
      "state r2 = showing_answer" "msgs roomId ''showAnswer'' out2 = []" by blast
    with h shown(4) a show ?thesis by auto
  qed
qed

lemma in_play_Cons:
  assumes "\<forall>x\<in>set ((e, sid, ev) # evs). in_play roomId h x"
  shows "\<forall>req. ev = CreateRoom req \<longrightarrow> createRoomId e \<noteq> roomId"
    and "ev = Disconnect \<longrightarrow> sid \<noteq> h"
    and "ev = StartGame roomId \<longrightarrow> sid \<noteq> h"
    and "\<forall>x\<in>set evs. in_play roomId h x"
  using assms by (auto simp: in_play_def)

text \<open>\<open>finished\<close> is terminal in a run in which the host does not start again.\<close>

lemma play_finished:
  assumes "rooms_ok rooms" "map_of rooms roomId = Some r" "state r = finished"
    "\<forall>x\<in>set evs. in_play roomId (hostId r) x"
  shows "\<exists>rooms' out r'. run B evs rooms = Inr (rooms', out) \<and> map_of rooms' roomId = Some r'
           \<and> state r' = finished \<and> quiet roomId out"
  using assms
proof (induction evs arbitrary: rooms r)
  case Nil
  then show ?case by simp
next
  case (Cons a evs)
  obtain e sid ev where a: "a = (e, sid, ev)" by (cases a)
  note ip = in_play_Cons[OF Cons.prems(4)[unfolded a]]
  obtain rooms1 out1 where h: "handle B e sid ev rooms = Inr (rooms1, out1)" and ok1: "rooms_ok rooms1"
    using handle_ok[OF Cons.prems(1)] by blast
  from h Cons.prems(2) ip(1,2)
  obtain r1 where r1: "map_of rooms1 roomId = Some r1" "hostId r1 = hostId r"
    "state r1 = finished" "quiet roomId out1"
  proof (cases rule: handle_target)
    case (same r')
    with Cons.prems(3) that show ?thesis by simp
  next
    case (start r' p)
    with ip(3) show ?thesis by simp
  next
    case (reveal r' p)
    with Cons.prems(3) show ?thesis by (simp add: reveals_def)
  next
    case (advance r' p)
    with Cons.prems(3) show ?thesis by simp
  next
    case (finish r' t)
    with Cons.prems(3) show ?thesis by simp
  qed
  have "\<forall>x\<in>set evs. in_play roomId (hostId r1) x" using ip(4) r1(2) by simp
  from Cons.IH[OF ok1 r1(1) r1(3) this]
  obtain rooms2 out2 r2 where "run B evs rooms1 = Inr (rooms2, out2)" "map_of rooms2 roomId = Some r2"
    "state r2 = finished" "quiet roomId out2" by blast
  with h r1(4) a show ?case by (auto simp: quiet_def)
qed

text \<open>A started fixed-round room: the cursor counts the \<^verbatim>\<open>questionStarted\<close> broadcasts, and
  \<^verbatim>\<open>gameOver\<close> comes once, when the cursor reaches the length of the queue.\<close>

lemma play_run:
  assumes "rooms_ok rooms" "map_of rooms roomId = Some r"
    "state r = in_question \<or> state r = showing_answer" "\<not> isUnlimited r"
    "\<forall>x\<in>set evs. in_play roomId (hostId r) x"
  shows "\<exists>rooms' out r'. run B evs rooms = Inr (rooms', out) \<and> map_of rooms' roomId = Some r'
           \<and> (state r' \<noteq> finished \<and> msgs roomId ''gameOver'' out = []
                \<and> questionIndex r' = questionIndex r + length (msgs roomId ''questionStarted'' out)
                \<and> questionIndex r' < length (questions r)
              \<or> state r' = finished
                \<and> msgs roomId ''gameOver'' out
                     = [(To roomId, ''gameOver'', JObj [(''totalRounds'', JNum (int (length (questions r))))])]
                \<and> questionIndex r + length (msgs roomId ''questionStarted'' out) + 1 = length (questions r))"
  using assms
proof (induction evs arbitrary: rooms r)
  case Nil
  have "room_ok r" using rooms_ok_lookup[OF Nil.prems(1,2)] .
  with Nil.prems(3) have "questionIndex r < length (questions r)" by (auto simp: room_ok_def)
  with Nil show ?case by auto
next
  case (Cons a evs)
  obtain e sid ev where a: "a = (e, sid, ev)" by (cases a)
  note ip = in_play_Cons[OF Cons.prems(5)[unfolded a]]
  have okr: "room_ok r" using rooms_ok_lookup[OF Cons.prems(1,2)] .
  then have tr: "totalRounds r = Fixed (int (length (questions r)))"
    and idx: "questionIndex r < length (questions r)"
    using Cons.prems(3,4) by (auto simp: room_ok_def)
  obtain rooms1 out1 where h: "handle B e sid ev rooms = Inr (rooms1, out1)" and ok1: "rooms_ok rooms1"
    using handle_ok[OF Cons.prems(1)] by blast
  from h Cons.prems(2) ip(1,2)
  consider (active) r1 where "map_of rooms1 roomId = Some r1" "hostId r1 = hostId r"
      "state r1 = in_question \<or> state r1 = showing_answer" "\<not> isUnlimited r1"
      "questions r1 = questions r" "msgs roomId ''gameOver'' out1 = []"
      "questionIndex r1 = questionIndex r + length (msgs roomId ''questionStarted'' out1)"
    | (over) r1 where "map_of rooms1 roomId = Some r1" "hostId r1 = hostId r"
      "state r1 = finished"
      "msgs roomId ''gameOver'' out1
         = [(To roomId, ''gameOver'', JObj [(''totalRounds'', JNum (int (length (questions r))))])]"
      "msgs roomId ''questionStarted'' out1 = []" "questionIndex r + 1 = length (questions r)"
  proof (cases rule: handle_target)
    case (same r')
    with Cons.prems(3,4) active[of r'] show ?thesis by (simp add: quiet_def)
  next
    case (start r' p)
    with ip(3) show ?thesis by simp
  next
    case (reveal r' p)
    with Cons.prems(4) active[of r'] show ?thesis by simp
  next
    case (advance r' p)
    with Cons.prems(4) active[of r'] show ?thesis by simp
  next
    case (finish r' t)
    with Cons.prems(4) tr idx over[of r'] show ?thesis
      by (simp add: reached_def total_json_def)
  qed
  then show ?case
  proof cases
    case (active r1)
    have ip1: "\<forall>x\<in>set evs. in_play roomId (hostId r1) x" using ip(4) active(2) by simp
    from Cons.IH[OF ok1 active(1) active(3) active(4) ip1]
    obtain rooms2 out2 r2 where r2: "run B evs rooms1 = Inr (rooms2, out2)" "map_of rooms2 roomId = Some r2"
      "state r2 \<noteq> finished \<and> msgs roomId ''gameOver'' out2 = []
                \<and> questionIndex r2 = questionIndex r1 + length (msgs roomId ''questionStarted'' out2)
                \<and> questionIndex r2 < length (questions r1)
              \<or> state r2 = finished
                \<and> msgs roomId ''gameOver'' out2
                     = [(To roomId, ''gameOver'', JObj [(''totalRounds'', JNum (int (length (questions r1))))])]
                \<and> questionIndex r1 + length (msgs roomId ''questionStarted'' out2) + 1 = length (questions r1)"
      by blast
    have "run B (a # evs) rooms = Inr (rooms2, out1 @ out2)" using h r2(1) a by simp
    with r2(2,3) active(5,6,7) show ?thesis by auto
  next
    case (over r1)
    have ip1: "\<forall>x\<in>set evs. in_play roomId (hostId r1) x" using ip(4) over(2) by simp
    from play_finished[OF ok1 over(1) over(3) ip1]
    obtain rooms2 out2 r2 where r2: "run B evs rooms1 = Inr (rooms2, out2)" "map_of rooms2 roomId = Some r2"
      "state r2 = finished" "quiet roomId out2" by blast
    have "run B (a # evs) rooms = Inr (rooms2, out1 @ out2)" using h r2(1) a by simp
    with r2(2,3,4) over(4,5,6) show ?thesis by (auto simp: quiet_def)
  qed
qed

subsection \<open>The queue of an unlimited room, and a disconnection of a stranger\<close>

lemma replenish_distinct:
  assumes "distinct (map qid B)" "distinct (map qid (questions r))"
  shows "distinct (map qid (questions (replenish B e r)))"
proof -
  let ?new = "selectQuestions B e (fgrade (filterParams r)) (fsubject (filterParams r))
                (fchapter (filterParams r)) 5 [] (fuseAi (filterParams r))"
  have "distinct (map qid ?new)" using assms(1) by (rule select_distinct)
  then have "distinct (map qid (filter (\<lambda>nq. qid nq \<notin> qid ` set (questions r)) ?new))"
    by (rule distinct_map_filter)
  with assms(2) have "distinct (map qid (questions r @ filter (\<lambda>nq. qid nq \<notin> qid ` set (questions r)) ?new))"
    by (intro distinct_map_append_fresh) auto
  then show ?thesis by (simp add: replenish_def Let_def)
qed


subsection \<open>The cursor\<close>

text \<open>As long as the host does not start the room again, the cursor never decreases; only
  an accepted \<^verbatim>\<open>hostNext\<close> changes it, by one.\<close>

lemma questionIndex_step:
  assumes h: "handle B e sid ev rooms = Inr (rooms', out)" and r: "map_of rooms roomId = Some r"
    and nr: "no_restart roomId (hostId r) (e, sid, ev)"
  shows "\<exists>r'. map_of rooms' roomId = Some r' \<and> hostId r' = hostId r
           \<and> questionIndex r' =
                (if ev = HostNext roomId \<and> sid = hostId r \<and> state r = showing_answer
                 then questionIndex r + 1 else questionIndex r)"
proof -
  have nc: "\<forall>req. ev = CreateRoom req \<longrightarrow> createRoomId e \<noteq> roomId"
    and nd: "ev = Disconnect \<longrightarrow> sid \<noteq> hostId r"
    and ns: "ev = StartGame roomId \<longrightarrow> sid \<noteq> hostId r"
    using nr by (auto simp: no_restart_def)
  from h r nc nd show ?thesis
  proof (cases rule: handle_target)
    case (same r')
    then show ?thesis by auto
  next
    case (start r' p)
    with ns show ?thesis by simp
  next
    case (reveal r' p)
    then show ?thesis by (auto simp: reveals_def split: event.splits)
  next
    case (advance r' p)
    then show ?thesis by simp
  next
    case (finish r' t)
    then show ?thesis by simp
  qed
qed

lemma questionIndex_mono:
  assumes "rooms_ok rooms" "map_of rooms roomId = Some r"
    "\<forall>x\<in>set evs. no_restart roomId (hostId r) x"
  shows "\<exists>rooms' out r'. run B evs rooms = Inr (rooms', out) \<and> map_of rooms' roomId = Some r'
           \<and> questionIndex r \<le> questionIndex r'"
  using assms
proof (induction evs arbitrary: rooms r)
  case Nil
  then show ?case by simp
next
  case (Cons a evs)
  obtain e sid ev where a: "a = (e, sid, ev)" by (cases a)
  obtain rooms1 out1 where h: "handle B e sid ev rooms = Inr (rooms1, out1)" and ok1: "rooms_ok rooms1"
    using handle_ok[OF Cons.prems(1)] by blast
  have nr: "no_restart roomId (hostId r) (e, sid, ev)" using Cons.prems(3) a by simp
  from questionIndex_step[OF h Cons.prems(2) nr]
  obtain r1 where r1: "map_of rooms1 roomId = Some r1" "hostId r1 = hostId r"
    "questionIndex r \<le> questionIndex r1" by auto
  have "\<forall>x\<in>set evs. no_restart roomId (hostId r1) x" using Cons.prems(3) r1(2) by simp
  from Cons.IH[OF ok1 r1(1) this]
  obtain rooms2 out2 r2 where "run B evs rooms1 = Inr (rooms2, out2)" "map_of rooms2 roomId = Some r2"
    "questionIndex r1 \<le> questionIndex r2" by blast
  with h r1(3) a show ?case by auto
qed

subsection \<open>Runs of a fixed-round room\<close>

text \<open>Let a fixed-round room have the round target \<open>T\<close> (its \<open>totalRounds\<close>, which
  \<^verbatim>\<open>roomCreated\<close> announced). A run in which the host starts the room and then, with no
  disconnection and no second start by the host, any connections send any of
  \<^verbatim>\<open>joinRoom\<close>, \<^verbatim>\<open>playerDone\<close>, \<^verbatim>\<open>hostRevealAnswer\<close>, \<^verbatim>\<open>hostNext\<close> (and events of
  other rooms) raises no exception; when it has reached \<open>finished\<close>, exactly \<open>T\<close>
  \<^verbatim>\<open>questionStarted\<close> and exactly one \<^verbatim>\<open>gameOver\<close>, carrying \<open>totalRounds = T\<close>, were broadcast
  to the room; before that, no \<^verbatim>\<open>gameOver\<close> and one \<^verbatim>\<open>questionStarted\<close> per question up
  to the cursor. The \<^verbatim>\<open>hostNext\<close> that moves the cursor to \<open>T\<close> stores \<open>finished\<close> and
  emits \<^verbatim>\<open>gameOver\<close> and nothing else.\<close>

lemma fixed_run:
  assumes "rooms_ok rooms" and "map_of rooms roomId = Some r" and "\<not> isUnlimited r"
    and "totalRounds r = Fixed T" and "\<forall>x\<in>set rest. in_play roomId (hostId r) x"
  shows "(\<exists>rooms' out r'.
            run B ((e0, hostId r, StartGame roomId) # rest) rooms = Inr (rooms', out)
            \<and> map_of rooms' roomId = Some r'
            \<and> (state r' = finished \<longrightarrow>
                  int (length (msgs roomId ''questionStarted'' out)) = T
                  \<and> msgs roomId ''gameOver'' out = [(To roomId, ''gameOver'', JObj [(''totalRounds'', JNum T)])])
            \<and> (state r' \<noteq> finished \<longrightarrow>
                  length (msgs roomId ''questionStarted'' out) = questionIndex r' + 1
                  \<and> int (questionIndex r') < T \<and> msgs roomId ''gameOver'' out = []))
       \<and> (\<forall>rooms1 r1 e1.
            map_of rooms1 roomId = Some r1 \<and> state r1 = showing_answer \<and> \<not> isUnlimited r1
            \<and> totalRounds r1 = Fixed T \<and> int (questionIndex r1) + 1 = T \<longrightarrow>
            hostNext B e1 (hostId r1) roomId rooms1
              = Inr (AList.update roomId (r1\<lparr> questionIndex := questionIndex r1 + 1, state := finished \<rparr>) rooms1,
                     [(To roomId, ''gameOver'', JObj [(''totalRounds'', JNum T)])]))"
proof (intro conjI allI impI)
  have okr: "room_ok r" using rooms_ok_lookup[OF assms(1,2)] .
  with assms(3,4) have T: "T = int (length (questions r))" by (simp add: room_ok_def)
  obtain rooms1 out1 where h: "handle B e0 (hostId r) (StartGame roomId) rooms = Inr (rooms1, out1)"
    and ok1: "rooms_ok rooms1"
    using handle_ok[OF assms(1)] by blast
  have nc: "\<forall>req. StartGame roomId = CreateRoom req \<longrightarrow> createRoomId e0 \<noteq> roomId"
    and nd: "StartGame roomId = Disconnect \<longrightarrow> hostId r \<noteq> hostId r" by simp_all
  from h assms(2) nc nd
  obtain r1 p where r1: "map_of rooms1 roomId = Some r1" "hostId r1 = hostId r" "isUnlimited r1 = isUnlimited r"
    "state r1 = in_question" "questionIndex r1 = 0" "questions r1 = questions r"
    "out1 = [(To roomId, ''questionStarted'', p)]"
  proof (cases rule: handle_target)
    case (same r')
    then show ?thesis by simp
  next
    case (start r' p)
    with that show ?thesis by simp
  next
    case (reveal r' p)
    then show ?thesis by (simp add: reveals_def)
  next
    case (advance r' p)
    then show ?thesis by simp
  next
    case (finish r' t)
    then show ?thesis by simp
  qed
  have ip: "\<forall>x\<in>set rest. in_play roomId (hostId r1) x" using assms(5) r1(2) by simp
  have act: "state r1 = in_question \<or> state r1 = showing_answer" using r1(4) by simp
  have fx: "\<not> isUnlimited r1" using assms(3) r1(3) by simp
  from play_run[OF ok1 r1(1) act fx ip, of B]
  obtain rooms2 out2 r2 where r2: "run B rest rooms1 = Inr (rooms2, out2)" "map_of rooms2 roomId = Some r2"
    "state r2 \<noteq> finished \<and> msgs roomId ''gameOver'' out2 = []
        \<and> questionIndex r2 = questionIndex r1 + length (msgs roomId ''questionStarted'' out2)
        \<and> questionIndex r2 < length (questions r1)
     \<or> state r2 = finished
        \<and> msgs roomId ''gameOver'' out2
             = [(To roomId, ''gameOver'', JObj [(''totalRounds'', JNum (int (length (questions r1))))])]
        \<and> questionIndex r1 + length (msgs roomId ''questionStarted'' out2) + 1 = length (questions r1)"
    by blast
  have run: "run B ((e0, hostId r, StartGame roomId) # rest) rooms = Inr (rooms2, out1 @ out2)"
    using h r2(1) by simp
  have qs: "length (msgs roomId ''questionStarted'' (out1 @ out2))
            = 1 + length (msgs roomId ''questionStarted'' out2)"
    and go: "msgs roomId ''gameOver'' (out1 @ out2) = msgs roomId ''gameOver'' out2"
    using r1(7) by (simp_all add: msgs_Cons)
  show "\<exists>rooms' out r'.
            run B ((e0, hostId r, StartGame roomId) # rest) rooms = Inr (rooms', out)
            \<and> map_of rooms' roomId = Some r'
            \<and> (state r' = finished \<longrightarrow>
                  int (length (msgs roomId ''questionStarted'' out)) = T
                  \<and> msgs roomId ''gameOver'' out = [(To roomId, ''gameOver'', JObj [(''totalRounds'', JNum T)])])
            \<and> (state r' \<noteq> finished \<longrightarrow>
                  length (msgs roomId ''questionStarted'' out) = questionIndex r' + 1
                  \<and> int (questionIndex r') < T \<and> msgs roomId ''gameOver'' out = [])"
    using run r2(2,3) qs go r1(5,6) T by (intro exI[of _ rooms2] exI[of _ "out1 @ out2"] exI[of _ r2]) auto
next
  fix rooms1 :: rooms and r1 :: room and e1 :: env
  assume a: "map_of rooms1 roomId = Some r1 \<and> state r1 = showing_answer \<and> \<not> isUnlimited r1
            \<and> totalRounds r1 = Fixed T \<and> int (questionIndex r1) + 1 = T"
  then show "hostNext B e1 (hostId r1) roomId rooms1
              = Inr (AList.update roomId (r1\<lparr> questionIndex := questionIndex r1 + 1, state := finished \<rparr>) rooms1,
                     [(To roomId, ''gameOver'', JObj [(''totalRounds'', JNum T)])])"
    by (simp add: hostNext_def Let_def reached_def game_over_def total_json_def)
qed

lemma fixed_run_example:
  "map_of rooms_new ''AAAAA'' = Some (new_room ''AAAAA'' ''h'' (req_rounds 2) [qA, qB] False)
   \<and> totalRounds (new_room ''AAAAA'' ''h'' (req_rounds 2) [qA, qB] False) = Fixed 2
   \<and> state (the (map_of (fst (projr (run [qA, qB] ((env0, ''h'', StartGame ''AAAAA'') # evs_solo) rooms_new)))
                   ''AAAAA'')) = finished
   \<and> length (msgs ''AAAAA'' ''questionStarted''
               (snd (projr (run [qA, qB] ((env0, ''h'', StartGame ''AAAAA'') # evs_solo) rooms_new)))) = 2
   \<and> msgs ''AAAAA'' ''gameOver''
        (snd (projr (run [qA, qB] ((env0, ''h'', StartGame ''AAAAA'') # evs_solo) rooms_new)))
       = [(To ''AAAAA'', ''gameOver'', JObj [(''totalRounds'', JNum 2)])]"
proof -
  let ?r = "new_room ''AAAAA'' ''h'' (req_rounds 2) [qA, qB] False"
  have ok: "rooms_ok rooms_new" by code_simp
  have l: "map_of rooms_new ''AAAAA'' = Some ?r" by code_simp
  have f: "\<not> isUnlimited ?r" by simp
  have t: "totalRounds ?r = Fixed 2" by simp
  have ip: "\<forall>x\<in>set evs_solo. in_play ''AAAAA'' (hostId ?r) x" by code_simp
  have hid: "hostId ?r = ''h''" by simp
  from fixed_run[OF ok l f t ip, of "[qA, qB]" env0] obtain rooms' out r' where
    run: "run [qA, qB] ((env0, ''h'', StartGame ''AAAAA'') # evs_solo) rooms_new = Inr (rooms', out)"
    "map_of rooms' ''AAAAA'' = Some r'"
    "state r' = finished \<longrightarrow>
       int (length (msgs ''AAAAA'' ''questionStarted'' out)) = 2
       \<and> msgs ''AAAAA'' ''gameOver'' out = [(To ''AAAAA'', ''gameOver'', JObj [(''totalRounds'', JNum 2)])]"
    unfolding hid by blast
  have fin: "state (the (map_of (fst (projr (run [qA, qB] ((env0, ''h'', StartGame ''AAAAA'') # evs_solo) rooms_new)))
                   ''AAAAA'')) = finished"
    by code_simp
  with run have "state r' = finished" by simp
  with run fin l t show ?thesis by simp
qed

section \<open>The claims\<close>

text \<open>
  C1. Every run of events from the empty registry (\<^verbatim>\<open>createRoom\<close>, \<^verbatim>\<open>joinRoom\<close>,
  \<^verbatim>\<open>startGame\<close>, \<^verbatim>\<open>playerDone\<close>, \<^verbatim>\<open>hostRevealAnswer\<close>, \<^verbatim>\<open>hostNext\<close>, \<^verbatim>\<open>disconnect\<close>, of
  any connections, under any environment) ends without an exception, and in every room
  of the registry it reaches the set \<open>done\<close> is a subset of the keys of \<open>players\<close>.
\<close>

theorem done_subset_players:
  "\<exists>rooms out. run B evs [] = Inr (rooms, out)
     \<and> (\<forall>roomId r. map_of rooms roomId = Some r \<longrightarrow> fset (doneSet r) \<subseteq> fst ` set (players r))"
proof -
  obtain rooms out where r: "run B evs [] = Inr (rooms, out)" "rooms_ok rooms"
    using run_ok[OF rooms_ok_Nil] by blast
  have "fset (doneSet r) \<subseteq> fst ` set (players r)" if "map_of rooms roomId = Some r" for roomId r
    using rooms_ok_lookup[OF r(2) that] by (simp add: room_ok_def)
  with r(1) show ?thesis by blast
qed

theorem done_subset_players_witness:
  "map_of (fst (projr (run [qA, qB] evs_mid []))) ''AAAAA'' = Some room_mid
   \<and> doneSet room_mid = {|''p1''|}
   \<and> fset (doneSet room_mid) \<subseteq> fst ` set (players room_mid)"
proof -
  have e: "map_of (fst (projr (run [qA, qB] evs_mid []))) ''AAAAA'' = Some room_mid"
    by code_simp
  obtain rooms out where r: "run [qA, qB] evs_mid [] = Inr (rooms, out)"
    and s: "\<forall>roomId r. map_of rooms roomId = Some r \<longrightarrow> fset (doneSet r) \<subseteq> fst ` set (players r)"
    using done_subset_players[of "[qA, qB]" evs_mid] by blast
  from e r have "map_of rooms ''AAAAA'' = Some room_mid" by simp
  with s have "fset (doneSet room_mid) \<subseteq> fst ` set (players room_mid)" by blast
  moreover have "doneSet room_mid = {|''p1''|}" by (simp add: room_mid_def)
  ultimately show ?thesis using e by simp
qed

text \<open>
  C2. For a room in state \<open>in_question\<close>, a \<^verbatim>\<open>playerDone\<close> from a connection that is not
  a key of \<open>players\<close>, or from a connection that is already in \<open>done\<close> for the round,
  returns the registry as it was and emits nothing: the size of \<open>done\<close> and every other
  field of every room are unchanged.
\<close>

theorem playerDone_ignored:
  assumes "map_of rooms roomId = Some r" and "state r = in_question"
    and "map_of (players r) sid = None \<or> sid |\<in>| doneSet r"
  shows "playerDone e sid roomId ans rooms = Inr (rooms, [])"
  using assms by (auto simp: playerDone_def)

theorem playerDone_ignored_witness:
  "map_of [(''AAAAA'', room_mid)] ''AAAAA'' = Some room_mid \<and> state room_mid = in_question
   \<and> map_of (players room_mid) ''h'' = None \<and> ''p1'' |\<in>| doneSet room_mid
   \<and> playerDone env1 ''h'' ''AAAAA'' JUndef [(''AAAAA'', room_mid)] = Inr ([(''AAAAA'', room_mid)], [])
   \<and> playerDone env1 ''p1'' ''AAAAA'' (JNum 2) [(''AAAAA'', room_mid)] = Inr ([(''AAAAA'', room_mid)], [])"
proof -
  have l: "map_of [(''AAAAA'', room_mid)] ''AAAAA'' = Some room_mid" by simp
  have s: "state room_mid = in_question" by (simp add: room_mid_def)
  have h: "map_of (players room_mid) ''h'' = None" by (simp add: room_mid_def)
  have p: "''p1'' |\<in>| doneSet room_mid" by (simp add: room_mid_def)
  show ?thesis
    using l s h p playerDone_ignored[OF l s disjI1[OF h], of env1 JUndef]
      playerDone_ignored[OF l s disjI2[OF p], of env1 "JNum 2"]
    by simp
qed

text \<open>
  C3, as amended. Let a room be in state \<open>in_question\<close> (a \<^verbatim>\<open>questionStarted\<close> was
  broadcast). One handler call broadcasts \<^verbatim>\<open>showAnswer\<close> to the room once when
  \<open>reveals\<close> holds and not at all otherwise: \<open>reveals\<close> is a \<^verbatim>\<open>playerDone\<close> that passes
  the guards (a registered player, not yet in \<open>done\<close>) and after which
  \<open>|done| \<ge> |players|\<close>, or a \<^verbatim>\<open>hostRevealAnswer\<close> of the host when \<open>|players| = 0\<close>; the
  room is then in state \<open>showing_answer\<close>. Over the events of one round (any events but
  the host's \<^verbatim>\<open>hostNext\<close> and \<^verbatim>\<open>startGame\<close>, the deletion of the room and its
  re-creation) \<^verbatim>\<open>showAnswer\<close> has been broadcast exactly once when the room shows the
  answer, which is when the host's \<^verbatim>\<open>hostNext\<close> is accepted, and not at all while the
  room is still \<open>in_question\<close>; from state \<open>showing_answer\<close> on it is not broadcast again.
\<close>

theorem showAnswer_once_per_round:
  assumes "rooms_ok rooms" and "map_of rooms roomId = Some r"
  shows "(\<forall>e sid ev rooms' out.
            handle B e sid ev rooms = Inr (rooms', out) \<longrightarrow>
              length (msgs roomId ''showAnswer'' out) = (if reveals roomId r sid ev then 1 else 0)
              \<and> (reveals roomId r sid ev \<longrightarrow>
                   (\<exists>r'. map_of rooms' roomId = Some r' \<and> state r' = showing_answer)))
       \<and> (state r = in_question \<and> (\<forall>x\<in>set evs. in_round roomId (hostId r) x) \<longrightarrow>
            (\<exists>rooms' out r'. run B evs rooms = Inr (rooms', out) \<and> map_of rooms' roomId = Some r'
               \<and> (state r' = in_question \<and> msgs roomId ''showAnswer'' out = []
                  \<or> state r' = showing_answer \<and> length (msgs roomId ''showAnswer'' out) = 1)))
       \<and> (state r = showing_answer \<and> (\<forall>x\<in>set evs. in_round roomId (hostId r) x) \<longrightarrow>
            (\<exists>rooms' out r'. run B evs rooms = Inr (rooms', out) \<and> map_of rooms' roomId = Some r'
               \<and> state r' = showing_answer \<and> msgs roomId ''showAnswer'' out = []))"
proof (intro conjI allI impI)
  fix e sid ev rooms' out
  assume h: "handle B e sid ev rooms = Inr (rooms', out)"
  from showAnswer_step[OF h assms(2)]
  show "length (msgs roomId ''showAnswer'' out) = (if reveals roomId r sid ev then 1 else 0)"
    by simp
  assume "reveals roomId r sid ev"
  with showAnswer_step[OF h assms(2)]
  show "\<exists>r'. map_of rooms' roomId = Some r' \<and> state r' = showing_answer" by simp
next
  assume "state r = in_question \<and> (\<forall>x\<in>set evs. in_round roomId (hostId r) x)"
  then show "\<exists>rooms' out r'. run B evs rooms = Inr (rooms', out) \<and> map_of rooms' roomId = Some r'
               \<and> (state r' = in_question \<and> msgs roomId ''showAnswer'' out = []
                  \<or> state r' = showing_answer \<and> length (msgs roomId ''showAnswer'' out) = 1)"
    using round_run[OF assms] by blast
next
  assume "state r = showing_answer \<and> (\<forall>x\<in>set evs. in_round roomId (hostId r) x)"
  then show "\<exists>rooms' out r'. run B evs rooms = Inr (rooms', out) \<and> map_of rooms' roomId = Some r'
               \<and> state r' = showing_answer \<and> msgs roomId ''showAnswer'' out = []"
    using round_after_reveal[OF assms] by blast
qed

theorem showAnswer_once_per_round_witness:
  "state room_mid = in_question
   \<and> \<not> reveals ''AAAAA'' room_mid ''p1'' (PlayerDone ''AAAAA'' JUndef)
   \<and> reveals ''AAAAA'' room_mid ''p2'' (PlayerDone ''AAAAA'' (JNum 3))
   \<and> length (msgs ''AAAAA'' ''showAnswer''
               (snd (projr (handle [qA, qB] env1 ''p2'' (PlayerDone ''AAAAA'' (JNum 3)) rooms_mid)))) = 1
   \<and> state (the (map_of (fst (projr (run [qA, qB] evs_round rooms_mid))) ''AAAAA'')) = showing_answer
   \<and> length (msgs ''AAAAA'' ''showAnswer'' (snd (projr (run [qA, qB] evs_round rooms_mid)))) = 1"
proof -
  have ok: "rooms_ok rooms_mid" by code_simp
  have l: "map_of rooms_mid ''AAAAA'' = Some room_mid" by (simp add: rooms_mid_def)
  have s: "state room_mid = in_question" by (simp add: room_mid_def)
  have h: "hostId room_mid = ''h''" by (simp add: room_mid_def)
  have ir: "\<forall>x\<in>set evs_round. in_round ''AAAAA'' (hostId room_mid) x" unfolding h by code_simp
  have n1: "\<not> reveals ''AAAAA'' room_mid ''p1'' (PlayerDone ''AAAAA'' JUndef)" by code_simp
  have r2: "reveals ''AAAAA'' room_mid ''p2'' (PlayerDone ''AAAAA'' (JNum 3))" by code_simp
  let ?g = "handle [qA, qB] env1 ''p2'' (PlayerDone ''AAAAA'' (JNum 3)) rooms_mid"
  have g: "?g = Inr (fst (projr ?g), snd (projr ?g))" by code_simp
  note t = showAnswer_once_per_round[OF ok l, of "[qA, qB]" evs_round]
  from t g r2 have one: "length (msgs ''AAAAA'' ''showAnswer'' (snd (projr ?g))) = 1" by metis
  from t s ir obtain rooms' out r' where
    run: "run [qA, qB] evs_round rooms_mid = Inr (rooms', out)" "map_of rooms' ''AAAAA'' = Some r'"
    "state r' = in_question \<and> msgs ''AAAAA'' ''showAnswer'' out = []
       \<or> state r' = showing_answer \<and> length (msgs ''AAAAA'' ''showAnswer'' out) = 1"
    by blast
  have fin: "state (the (map_of (fst (projr (run [qA, qB] evs_round rooms_mid))) ''AAAAA'')) = showing_answer"
    by code_simp
  with run have "state r' = showing_answer" by simp
  with run have "length (msgs ''AAAAA'' ''showAnswer'' (snd (projr (run [qA, qB] evs_round rooms_mid)))) = 1"
    by auto
  with s n1 r2 one fin show ?thesis by simp
qed

text \<open>
  C3 as stated fails: the first \<^verbatim>\<open>playerDone\<close> after which \<open>|done| \<ge> |players|\<close> need not
  broadcast. After \<open>evs_stale\<close> (the second player left, the first signalled again) the
  last event is a \<^verbatim>\<open>playerDone\<close>, \<open>|done| = |players| = 1\<close>, the room is still
  \<open>in_question\<close> and no \<^verbatim>\<open>showAnswer\<close> was broadcast: the repeated signal is dropped before
  the count is compared. The round is completed by a third player (\<open>evs_late\<close>), whose
  signal broadcasts the one \<^verbatim>\<open>showAnswer\<close> of the round.
\<close>

theorem stale_count_counterexample:
  "snd (snd (last evs_stale)) = PlayerDone ''AAAAA'' JUndef
   \<and> length (players (the (map_of (fst (projr (run [qA, qB] evs_stale []))) ''AAAAA'')))
       \<le> fcard (doneSet (the (map_of (fst (projr (run [qA, qB] evs_stale []))) ''AAAAA'')))
   \<and> state (the (map_of (fst (projr (run [qA, qB] evs_stale []))) ''AAAAA'')) = in_question
   \<and> msgs ''AAAAA'' ''showAnswer'' (snd (projr (run [qA, qB] evs_stale []))) = []
   \<and> length (msgs ''AAAAA'' ''showAnswer'' (snd (projr (run [qA, qB] (evs_stale @ evs_late) [])))) = 1
   \<and> length (msgs ''AAAAA'' ''questionStarted'' (snd (projr (run [qA, qB] (evs_stale @ evs_late) [])))) = 2"
  by code_simp

text \<open>
  C4. An accepted \<^verbatim>\<open>hostNext\<close> adds one to \<open>questionIndex\<close>; but a \<^verbatim>\<open>startGame\<close> of the
  host is accepted in every state and assigns \<open>questionIndex = 0\<close>. After \<open>evs_next\<close> the
  room shows its second question (cursor 1); the host's \<^verbatim>\<open>startGame\<close> then puts the
  cursor back to 0 and broadcasts the first question again.
\<close>

theorem questionIndex_reset_by_startGame:
  "questionIndex (the (map_of (fst (projr (run [qA, qB] evs_next []))) ''AAAAA'')) = 1
   \<and> state (the (map_of (fst (projr (run [qA, qB] evs_next []))) ''AAAAA'')) = in_question
   \<and> questionIndex
        (the (map_of (fst (projr (run [qA, qB] (evs_next @ [(env1, ''h'', StartGame ''AAAAA'')]) []))) ''AAAAA''))
       = 0
   \<and> length (msgs ''AAAAA'' ''questionStarted''
               (snd (projr (run [qA, qB] (evs_next @ [(env1, ''h'', StartGame ''AAAAA'')]) [])))) = 3"
  by code_simp

text \<open>
  C5. Of all the messages a handler emits, only \<^verbatim>\<open>showAnswer\<close> carries a property named
  \<^verbatim>\<open>answer\<close>, \<^verbatim>\<open>keywords\<close> or \<^verbatim>\<open>correctOption\<close>, at any depth of its payload, and it
  carries all three. In particular the payload of \<^verbatim>\<open>questionStarted\<close> (from \<^verbatim>\<open>startGame\<close>
  and \<^verbatim>\<open>hostNext\<close>) and the public room state in \<^verbatim>\<open>joinedRoom\<close> carry none of them.
\<close>

theorem solution_only_in_showAnswer:
  assumes "handle B e sid ev rooms = Inr (rooms', out)" and "(t, nm, p) \<in> set out"
  shows "(nm = ''showAnswer'' \<longrightarrow>
            mentions ''answer'' p \<and> mentions ''keywords'' p \<and> mentions ''correctOption'' p)
       \<and> (nm \<noteq> ''showAnswer'' \<longrightarrow>
            \<not> mentions ''answer'' p \<and> \<not> mentions ''keywords'' p \<and> \<not> mentions ''correctOption'' p)"
  using handle_public[OF assms, of "''answer''"] handle_public[OF assms, of "''keywords''"]
    handle_public[OF assms, of "''correctOption''"]
  by (simp add: secret_def)

theorem solution_only_in_showAnswer_witness:
  "map (\<lambda>m. fst (snd m)) (snd (projr (handle [qA, qB] env0 ''h'' (StartGame ''AAAAA'') [(''AAAAA'', room_mid)])))
     = [''questionStarted'']
   \<and> \<not> mentions ''answer''
         (snd (snd (hd (snd (projr (handle [qA, qB] env0 ''h'' (StartGame ''AAAAA'') [(''AAAAA'', room_mid)]))))))
   \<and> \<not> mentions ''keywords''
         (snd (snd (hd (snd (projr (handle [qA, qB] env0 ''h'' (StartGame ''AAAAA'') [(''AAAAA'', room_mid)]))))))
   \<and> \<not> mentions ''correctOption''
         (snd (snd (hd (snd (projr (handle [qA, qB] env0 ''h'' (StartGame ''AAAAA'') [(''AAAAA'', room_mid)]))))))
   \<and> map (\<lambda>m. fst (snd m))
        (snd (projr (handle [qA, qB] env1 ''p2'' (PlayerDone ''AAAAA'' (JNum 3)) [(''AAAAA'', room_mid)])))
     = [''showAnswer'']
   \<and> mentions ''answer''
        (snd (snd (hd (snd (projr (handle [qA, qB] env1 ''p2'' (PlayerDone ''AAAAA'' (JNum 3))
                                     [(''AAAAA'', room_mid)]))))))
   \<and> mentions ''correctOption''
        (snd (snd (hd (snd (projr (handle [qA, qB] env1 ''p2'' (PlayerDone ''AAAAA'' (JNum 3))
                                     [(''AAAAA'', room_mid)]))))))"
proof -
  let ?h = "handle [qA, qB] env0 ''h'' (StartGame ''AAAAA'') [(''AAAAA'', room_mid)]"
  let ?g = "handle [qA, qB] env1 ''p2'' (PlayerDone ''AAAAA'' (JNum 3)) [(''AAAAA'', room_mid)]"
  have h: "?h = Inr (fst (projr ?h), snd (projr ?h))" by code_simp
  have hn: "map (\<lambda>m. fst (snd m)) (snd (projr ?h)) = [''questionStarted'']" by code_simp
  have hm: "(fst (hd (snd (projr ?h))), ''questionStarted'', snd (snd (hd (snd (projr ?h)))))
              \<in> set (snd (projr ?h))"
    by code_simp
  have g: "?g = Inr (fst (projr ?g), snd (projr ?g))" by code_simp
  have gn: "map (\<lambda>m. fst (snd m)) (snd (projr ?g)) = [''showAnswer'']" by code_simp
  have gm: "(fst (hd (snd (projr ?g))), ''showAnswer'', snd (snd (hd (snd (projr ?g)))))
              \<in> set (snd (projr ?g))"
    by code_simp
  from solution_only_in_showAnswer[OF h hm] solution_only_in_showAnswer[OF g gm] hn gn
  show ?thesis by simp
qed

text \<open>
  C6, as amended. Over a bank whose ids are pairwise distinct (the loader of the bank
  keeps them so), \<^verbatim>\<open>selectQuestions\<close> returns questions with pairwise distinct ids, at
  least one, and without AI at most the requested number; it raises nothing. It takes
  no exclusion set from its caller: its own set starts empty at every call. The fallback
  generator, which is given an exclusion set, returns pairwise distinct ids outside it,
  at most as many as asked.
\<close>

theorem selectQuestions_distinct_ids:
  assumes "distinct (map qid QUESTION_BANK)"
  shows "distinct (map qid (selectQuestions QUESTION_BANK e grade0 subject0 chapter0 rounds questionType useAi))
       \<and> selectQuestions QUESTION_BANK e grade0 subject0 chapter0 rounds questionType useAi \<noteq> []
       \<and> length (selectQuestions QUESTION_BANK e grade0 subject0 chapter0 rounds questionType False)
            \<le> nat (max 1 (if rounds = 0 then 5 else rounds))
       \<and> qid ` set (fst (generateQuestionsFallback e g s c cnt excludeIds)) \<inter> excludeIds = {}
       \<and> distinct (map qid (fst (generateQuestionsFallback e g s c cnt excludeIds)))
       \<and> length (fst (generateQuestionsFallback e g s c cnt excludeIds)) \<le> cnt"
proof -
  have "qid ` set (fst (generateQuestionsFallback e g s c cnt excludeIds)) \<inter> excludeIds = {}"
    using fallback_fresh[of _ e g s c cnt excludeIds] by auto
  then show ?thesis
    using select_distinct[OF assms] select_nonempty select_length_noai fallback_distinct fallback_length
    by simp
qed

theorem selectQuestions_distinct_ids_witness:
  "distinct (map qid bank5)
   \<and> distinct (map qid (selectQuestions bank5 env0 (Some 9) ''Mathematics'' [] 7 [] False))
   \<and> length (selectQuestions bank5 env0 (Some 9) ''Mathematics'' [] 7 [] False) = 7
   \<and> qid ` set (fst (generateQuestionsFallback env0 9 ''Mathematics'' [] 2 {''live-g9-m-t0-1''}))
        \<inter> {''live-g9-m-t0-1''} = {}"
proof -
  have d: "distinct (map qid bank5)" by code_simp
  have l: "length (selectQuestions bank5 env0 (Some 9) ''Mathematics'' [] 7 [] False) = 7" by code_simp
  from selectQuestions_distinct_ids[OF d, of env0 "Some 9" "''Mathematics''" "[]" 7 "[]" False
      9 "''Mathematics''" "[]" 2 "{''live-g9-m-t0-1''}"] d l
  show ?thesis by simp
qed

text \<open>
  C6 as stated fails: the caller cannot exclude ids. A caller that holds the questions
  of a first call (under \<open>env0\<close>) and calls again (under \<open>env1\<close>, every draw different)
  receives the same bank question, whose id it already holds.
\<close>

theorem selectQuestions_repeats_counterexample:
  "qid (hd (selectQuestions [qA] env1 (Some 9) ''Mathematics'' [] 5 [] False))
     \<in> qid ` set (selectQuestions [qA] env0 (Some 9) ''Mathematics'' [] 1 [] False)"
  by code_simp

text \<open>
  C7. In a fixed-round room with target \<open>T\<close> the \<^verbatim>\<open>hostNext\<close> that moves the cursor to \<open>T\<close>
  stores \<open>finished\<close> and broadcasts \<^verbatim>\<open>gameOver\<close> with \<open>totalRounds = T\<close>, and a run in which
  the host starts the room once broadcasts \<open>T\<close> \<^verbatim>\<open>questionStarted\<close> (lemma \<open>fixed_run\<close>). But
  \<^verbatim>\<open>startGame\<close> of the host is accepted in every state. In the two-round room of
  \<open>evs_twice\<close> the host sends \<^verbatim>\<open>startGame\<close> twice in a row and then plays both rounds:
  the room is \<open>finished\<close> after three \<^verbatim>\<open>questionStarted\<close> and one \<^verbatim>\<open>gameOver\<close>. In
  \<open>evs_again\<close> the host sends \<^verbatim>\<open>startGame\<close> to the finished room and plays it again:
  \<open>finished\<close> is left, and four \<^verbatim>\<open>questionStarted\<close> and two \<^verbatim>\<open>gameOver\<close> are broadcast.
  Neither run has a disconnection.
\<close>

theorem fixed_run_restarted:
  "Disconnect \<notin> set (map (\<lambda>x. snd (snd x)) (evs_twice @ evs_again))
   \<and> totalRounds (the (map_of (fst (projr (run [qA, qB] evs_twice []))) ''AAAAA'')) = Fixed 2
   \<and> state (the (map_of (fst (projr (run [qA, qB] evs_twice []))) ''AAAAA'')) = finished
   \<and> length (msgs ''AAAAA'' ''questionStarted'' (snd (projr (run [qA, qB] evs_twice [])))) = 3
   \<and> msgs ''AAAAA'' ''gameOver'' (snd (projr (run [qA, qB] evs_twice [])))
       = [(To ''AAAAA'', ''gameOver'', JObj [(''totalRounds'', JNum 2)])]
   \<and> state (the (map_of (fst (projr (run [qA, qB] evs_again []))) ''AAAAA'')) = finished
   \<and> length (msgs ''AAAAA'' ''questionStarted'' (snd (projr (run [qA, qB] evs_again [])))) = 4
   \<and> length (msgs ''AAAAA'' ''gameOver'' (snd (projr (run [qA, qB] evs_again [])))) = 2"
  by code_simp

text \<open>
  C8, as amended. On an accepted \<^verbatim>\<open>hostNext\<close> in an unlimited room, when fewer than three
  questions are left from the new cursor on, the handler selects five questions with the
  stored \<^verbatim>\<open>filterParams\<close> and no exclusion set, and pushes those whose id is not in the
  queue (ids of the queue stay pairwise distinct over a bank of distinct ids). When the
  cursor is then still out of range, it stores \<open>finished\<close> and broadcasts \<^verbatim>\<open>gameOver\<close>
  with the cursor as total; otherwise it resets the round and broadcasts the question
  under the cursor. With three or more left it selects nothing.
\<close>

theorem hostNext_unlimited:
  assumes "map_of rooms roomId = Some r" and "hostId r = sid" and "state r = showing_answer"
    and "isUnlimited r"
  shows "questions (replenish B e (r\<lparr> questionIndex := questionIndex r + 1 \<rparr>))
           = questions r @ filter (\<lambda>nq. qid nq \<notin> qid ` set (questions r))
                             (selectQuestions B e (fgrade (filterParams r)) (fsubject (filterParams r))
                                (fchapter (filterParams r)) 5 [] (fuseAi (filterParams r)))
       \<and> (length (questions r) \<le> questionIndex r + 3
            \<and> length (questions (replenish B e (r\<lparr> questionIndex := questionIndex r + 1 \<rparr>)))
                 \<le> questionIndex r + 1 \<longrightarrow>
            hostNext B e sid roomId rooms
              = Inr (AList.update roomId
                       ((replenish B e (r\<lparr> questionIndex := questionIndex r + 1 \<rparr>))\<lparr> state := finished \<rparr>) rooms,
                     [(To roomId, ''gameOver'', JObj [(''totalRounds'', JNum (int (questionIndex r) + 1))])]))
       \<and> (length (questions r) \<le> questionIndex r + 3
            \<and> questionIndex r + 1
                 < length (questions (replenish B e (r\<lparr> questionIndex := questionIndex r + 1 \<rparr>))) \<longrightarrow>
            hostNext B e sid roomId rooms
              = Inr (AList.update roomId
                       (reset_round e (replenish B e (r\<lparr> questionIndex := questionIndex r + 1 \<rparr>))) rooms,
                     [(To roomId, ''questionStarted'',
                       questionStarted_payload e
                         (reset_round e (replenish B e (r\<lparr> questionIndex := questionIndex r + 1 \<rparr>)))
                         (questions (replenish B e (r\<lparr> questionIndex := questionIndex r + 1 \<rparr>))
                            ! (questionIndex r + 1)))]))
       \<and> (questionIndex r + 3 < length (questions r) \<longrightarrow>
            hostNext B e sid roomId rooms
              = Inr (AList.update roomId (reset_round e (r\<lparr> questionIndex := questionIndex r + 1 \<rparr>)) rooms,
                     [(To roomId, ''questionStarted'',
                       questionStarted_payload e (reset_round e (r\<lparr> questionIndex := questionIndex r + 1 \<rparr>))
                         (questions r ! (questionIndex r + 1)))]))
       \<and> (distinct (map qid B) \<and> distinct (map qid (questions r)) \<longrightarrow>
            distinct (map qid (questions (replenish B e (r\<lparr> questionIndex := questionIndex r + 1 \<rparr>)))))"
proof (intro conjI impI)
  show "questions (replenish B e (r\<lparr> questionIndex := questionIndex r + 1 \<rparr>))
           = questions r @ filter (\<lambda>nq. qid nq \<notin> qid ` set (questions r))
                             (selectQuestions B e (fgrade (filterParams r)) (fsubject (filterParams r))
                                (fchapter (filterParams r)) 5 [] (fuseAi (filterParams r)))"
    by (simp add: replenish_def Let_def)
next
  assume "length (questions r) \<le> questionIndex r + 3
            \<and> length (questions (replenish B e (r\<lparr> questionIndex := questionIndex r + 1 \<rparr>)))
                 \<le> questionIndex r + 1"
  with assms show "hostNext B e sid roomId rooms
              = Inr (AList.update roomId
                       ((replenish B e (r\<lparr> questionIndex := questionIndex r + 1 \<rparr>))\<lparr> state := finished \<rparr>) rooms,
                     [(To roomId, ''gameOver'', JObj [(''totalRounds'', JNum (int (questionIndex r) + 1))])])"
    by (simp add: hostNext_def Let_def game_over_def)
next
  assume "length (questions r) \<le> questionIndex r + 3
            \<and> questionIndex r + 1
                 < length (questions (replenish B e (r\<lparr> questionIndex := questionIndex r + 1 \<rparr>)))"
  with assms show "hostNext B e sid roomId rooms
              = Inr (AList.update roomId
                       (reset_round e (replenish B e (r\<lparr> questionIndex := questionIndex r + 1 \<rparr>))) rooms,
                     [(To roomId, ''questionStarted'',
                       questionStarted_payload e
                         (reset_round e (replenish B e (r\<lparr> questionIndex := questionIndex r + 1 \<rparr>)))
                         (questions (replenish B e (r\<lparr> questionIndex := questionIndex r + 1 \<rparr>))
                            ! (questionIndex r + 1)))])"
    by (simp add: hostNext_def Let_def start_round_def current_question_def)
next
  assume "questionIndex r + 3 < length (questions r)"
  with assms show "hostNext B e sid roomId rooms
              = Inr (AList.update roomId (reset_round e (r\<lparr> questionIndex := questionIndex r + 1 \<rparr>)) rooms,
                     [(To roomId, ''questionStarted'',
                       questionStarted_payload e (reset_round e (r\<lparr> questionIndex := questionIndex r + 1 \<rparr>))
                         (questions r ! (questionIndex r + 1)))])"
    by (simp add: hostNext_def Let_def start_round_def current_question_def)
next
  assume "distinct (map qid B) \<and> distinct (map qid (questions r))"
  then show "distinct (map qid (questions (replenish B e (r\<lparr> questionIndex := questionIndex r + 1 \<rparr>))))"
    using replenish_distinct[of B "r\<lparr> questionIndex := questionIndex r + 1 \<rparr>" e] by simp
qed

theorem hostNext_unlimited_witness:
  "map_of rooms_unl ''AAAAA'' = Some room_unl \<and> hostId room_unl = ''h''
   \<and> state room_unl = showing_answer \<and> isUnlimited room_unl
   \<and> length (questions (replenish [qA] env1 (room_unl\<lparr> questionIndex := questionIndex room_unl + 1 \<rparr>))) = 5
   \<and> hostNext [qA] env1 ''h'' ''AAAAA'' rooms_unl
       = Inr (AList.update ''AAAAA''
                (reset_round env1 (replenish [qA] env1 (room_unl\<lparr> questionIndex := questionIndex room_unl + 1 \<rparr>)))
                rooms_unl,
              [(To ''AAAAA'', ''questionStarted'',
                questionStarted_payload env1
                  (reset_round env1 (replenish [qA] env1 (room_unl\<lparr> questionIndex := questionIndex room_unl + 1 \<rparr>)))
                  (questions (replenish [qA] env1 (room_unl\<lparr> questionIndex := questionIndex room_unl + 1 \<rparr>))
                     ! (questionIndex room_unl + 1)))])"
proof -
  have l: "map_of rooms_unl ''AAAAA'' = Some room_unl" by (simp add: rooms_unl_def)
  have h: "hostId room_unl = ''h''" by (simp add: room_unl_def room_mid_def)
  have s: "state room_unl = showing_answer" by (simp add: room_unl_def)
  have u: "isUnlimited room_unl" by (simp add: room_unl_def)
  have n: "length (questions (replenish [qA] env1 (room_unl\<lparr> questionIndex := questionIndex room_unl + 1 \<rparr>))) = 5"
    by code_simp
  have c: "length (questions room_unl) \<le> questionIndex room_unl + 3
           \<and> questionIndex room_unl + 1
               < length (questions (replenish [qA] env1 (room_unl\<lparr> questionIndex := questionIndex room_unl + 1 \<rparr>)))"
    unfolding n by (simp add: room_unl_def room_mid_def)
  from hostNext_unlimited[OF l h s u, of "[qA]" env1] c l h s u n show ?thesis by blast
qed

text \<open>
  C8 as stated fails: the ids of the queue are not excluded from the request. The room
  \<open>room_last\<close> holds the five questions of the bank and shows the answer of the last. The
  five questions \<^verbatim>\<open>hostNext\<close> selects are those five again, none is pushed, and the
  unlimited room ends with \<^verbatim>\<open>gameOver\<close>; with the ids of the queue excluded the bank
  would give nothing and the fallback generator five new questions.
\<close>

theorem replenish_repeats_counterexample:
  "qid ` set (selectQuestions bank5 env1 (fgrade (filterParams room_last)) (fsubject (filterParams room_last))
                (fchapter (filterParams room_last)) 5 [] (fuseAi (filterParams room_last)))
     = qid ` set (questions room_last)
   \<and> questions (replenish bank5 env1 (room_last\<lparr> questionIndex := 5 \<rparr>)) = questions room_last
   \<and> hostNext bank5 env1 ''h'' ''AAAAA'' rooms_last
       = Inr ([(''AAAAA'', room_last\<lparr> questionIndex := 5, state := finished \<rparr>)],
              [(To ''AAAAA'', ''gameOver'', JObj [(''totalRounds'', JNum 5)])])
   \<and> length (fst (generateQuestionsFallback env1 9 ''Mathematics'' [] 5 (qid ` set (questions room_last)))) = 5"
  by code_simp




text \<open>
  C10. \<^verbatim>\<open>selectQuestions\<close> never returns an empty list, whatever the filters, the bank,
  the draws and the AI reply are: when the earlier steps selected nothing, the exclusion
  set is empty and the first pass of the fallback loop is kept. So \<^verbatim>\<open>createRoom\<close>
  never takes its \<^verbatim>\<open>errorMessage\<close> branch: it stores a room in state \<open>waiting\<close> with a
  non-empty queue under the new id and answers \<^verbatim>\<open>roomCreated\<close>.
\<close>

theorem createRoom_always_creates:
  "selectQuestions B e grade0 subject0 chapter0 rounds questionType useAi \<noteq> []
   \<and> initial_questions B e req \<noteq> []
   \<and> createRoom B e sid req rooms =
       Inr (AList.update (createRoomId e)
              (new_room (createRoomId e) sid req (initial_questions B e req) (parsed_rounds req = - 1)) rooms,
            [(Reply, ''roomCreated'',
              JObj [(''roomId'', JStr (createRoomId e)),
                    (''joinUrl'', case publicUrl e of
                                    None \<Rightarrow> JNull
                                  | Some b \<Rightarrow> if b = [] then JNull else JStr (b @ ''/join/'' @ createRoomId e)),
                    (''totalRounds'', JNum (int (length (initial_questions B e req)))),
                    (''hostName'', JStr (host_name req))])])
   \<and> state (new_room (createRoomId e) sid req (initial_questions B e req) (parsed_rounds req = - 1)) = waiting
   \<and> questions (new_room (createRoomId e) sid req (initial_questions B e req) (parsed_rounds req = - 1)) \<noteq> []"
  using select_nonempty initial_questions_nonempty createRoom_result by simp

end
